(* ===== verification/Laggy_Prelude.thy ===== *)
theory Laggy_Prelude
  imports Main "HOL-Library.Word" "HOL-Library.Monad_Syntax"
begin

text \<open>
  Shared vocabulary of the development: the machine integer types of the 68000 target
  (int, long and pointers are 32 bits wide, char is signed), the theorem collections the component
  theories add to, and the generic facts on words, lists and counting loops that several
  components use.
\<close>

unbundle bit_operations_syntax

type_synonym u8 = "8 word"
type_synonym u16 = "16 word"
type_synonym u32 = "32 word"

named_theorems flag_simps \<open>tests and updates of single bits in a flag word\<close>
named_theorems frame_simps \<open>fields an operation leaves alone\<close>

subsection \<open>Flag words\<close>

text \<open>The C idiom \<open>if (flags & (1 << n))\<close> is a test of bit \<open>n\<close>.\<close>

definition has_flag :: "'a::len word \<Rightarrow> 'a word \<Rightarrow> bool" where
  "has_flag w m \<longleftrightarrow> w AND m \<noteq> 0"

lemma has_flag_push_bit [flag_simps]:
  "has_flag w (push_bit n 1) \<longleftrightarrow> bit w n" for w :: "'a::len word"
proof -
  have "w AND push_bit n 1 = (if bit w n then push_bit n 1 else 0)"
    by (rule bit_word_eqI) (auto simp: bit_simps)
  moreover have "push_bit n 1 \<noteq> (0 :: 'a word)" if "bit w n"
    using bit_imp_le_length [OF that] by (auto simp: bit_eq_iff bit_simps)
  ultimately show ?thesis
    by (simp only: has_flag_def) simp
qed

lemma has_flag_or:
  "has_flag w (m OR k) \<longleftrightarrow> has_flag w m \<or> has_flag w k" for w :: "'a::len word"
  by (auto simp: has_flag_def bit.conj_disj_distrib or_eq_0_iff)

subsection \<open>Words\<close>

lemma unat_Suc_less:
  fixes w v :: "'a::len word"
  assumes "w < v"
  shows "unat (w + 1) = Suc (unat w)"
proof -
  have "w \<noteq> - 1"
    using assms by (metis leD word_n1_ge)
  then have "1 + w \<noteq> 0"
    by (metis add.commute add_eq_0_iff)
  then show ?thesis
    using unatSuc [of w] by (simp add: add.commute)
qed

lemma inc_le_iff_below:
  fixes w v a :: "'a::len word"
  assumes "w < v"
  shows "w + 1 \<le> a \<longleftrightarrow> w < a"
  using unat_Suc_less [OF assms] by (simp add: word_le_nat_alt word_less_nat_alt Suc_le_eq)

lemma unat_minus_decreases:
  "w < v \<Longrightarrow> unat (v - (w + 1)) < unat (v - w)" for w v :: "'a::len word"
  by (metis add_diff_cancel_right' diff_diff_add less_irrefl measure_unat right_minus_eq)

lemma of_nat_eq_iff_close:
  "of_nat m = (of_nat n :: 'a::len word) \<longleftrightarrow> m = n"
  if "m \<le> n" "n - m < 2 ^ LENGTH('a)"
proof
  assume "of_nat m = (of_nat n :: 'a word)"
  then have "of_nat (n - m) = (0 :: 'a word)"
    using that by (simp add: of_nat_diff)
  then have "2 ^ LENGTH('a) dvd n - m"
    by (simp add: word_of_nat_eq_0_iff)
  then show "m = n"
    using that by (auto dest: dvd_imp_le)
qed simp

subsection \<open>Computations that return\<close>

text \<open>A fallible computation returns and its result satisfies a predicate.\<close>

definition returns :: "'a option \<Rightarrow> ('a \<Rightarrow> bool) \<Rightarrow> bool" where
  "returns x P \<longleftrightarrow> (\<exists>y. x = Some y \<and> P y)"

lemma returns_Some [simp]: "returns (Some y) P \<longleftrightarrow> P y"
  by (simp add: returns_def)

lemma returns_None [simp]: "\<not> returns None P"
  by (simp add: returns_def)

lemma returns_bind: "returns x P \<Longrightarrow> (\<And>y. P y \<Longrightarrow> returns (k y) Q) \<Longrightarrow> returns (x \<bind> k) Q"
  by (auto simp: returns_def)

lemma returns_map: "returns (map_option f x) P \<longleftrightarrow> returns x (\<lambda>y. P (f y))"
  by (auto simp: returns_def)

lemma returns_if:
  "(c \<Longrightarrow> returns x P) \<Longrightarrow> (\<not> c \<Longrightarrow> returns y P) \<Longrightarrow> returns (if c then x else y) P"
  by simp

lemma returnsE: "returns x P \<Longrightarrow> (\<And>y. x = Some y \<Longrightarrow> P y \<Longrightarrow> thesis) \<Longrightarrow> thesis"
  by (auto simp: returns_def)

end
