(* ===== verification/Clock.thy ===== *)
theory Clock
  imports Laggy_Prelude
begin

text \<open>
  The tick counter (clock.h, clock.c) and the status register it is read under
  (interrupts.h). The counter runs at 10 MHz in the core; a write to its latch register freezes a
  copy, which the 32-bit read then returns in two bus cycles.
\<close>

subsection \<open>The hardware the clock driver sees\<close>

record clock_hw =
  sr :: u16           \<comment> \<open>status register of the CPU, bits 8 to 10 the interrupt mask\<close>
  ticks :: u32        \<comment> \<open>the free running counter\<close>
  ticks_latch :: u32  \<comment> \<open>the copy the value register shows\<close>

definition CLOCK_REF_HZ :: u32 where "CLOCK_REF_HZ = 10000000"
definition CLOCK_REF_KHZ :: u32 where "CLOCK_REF_KHZ = 10000"
definition CLOCK_REF_MHZ :: u32 where "CLOCK_REF_MHZ = 10"

definition CLOCK_MS_TO_TICKS :: "u32 \<Rightarrow> u32" where
  "CLOCK_MS_TO_TICKS ms = ms * CLOCK_REF_KHZ"

definition CLOCK_TICKS_TO_MS :: "u32 \<Rightarrow> u32" where
  "CLOCK_TICKS_TO_MS t = t div CLOCK_REF_KHZ"

definition CLOCK_TICKS_TO_US :: "u32 \<Rightarrow> u32" where
  "CLOCK_TICKS_TO_US t = t div CLOCK_REF_MHZ"

definition enable_interrupts :: "'a clock_hw_scheme \<Rightarrow> 'a clock_hw_scheme" where
  "enable_interrupts s = s\<lparr>sr := sr s AND 0xf8ff\<rparr>"

definition disable_interrupts :: "'a clock_hw_scheme \<Rightarrow> 'a clock_hw_scheme" where
  "disable_interrupts s = s\<lparr>sr := sr s OR 0x0700\<rparr>"

text \<open>Any write to the latch register copies the counter.\<close>

definition write_latch :: "'a clock_hw_scheme \<Rightarrow> 'a clock_hw_scheme" where
  "write_latch s = s\<lparr>ticks_latch := ticks s\<rparr>"

definition clock_get_ticks :: "'a clock_hw_scheme \<Rightarrow> u32 \<times> 'a clock_hw_scheme" where
  "clock_get_ticks s =
     (let s1 = disable_interrupts s;
          s2 = write_latch s1;
          res = ticks_latch s2;
          s3 = enable_interrupts s2
      in (res, s3))"

definition clock_ticks_to_ms_us :: "u32 \<Rightarrow> u32 \<times> u32" where
  "clock_ticks_to_ms_us t = (t div CLOCK_REF_KHZ, (t div CLOCK_REF_MHZ) mod 1000)"

text \<open>The interrupt priority mask: levels up to it are held off.\<close>

definition ipl :: "'a clock_hw_scheme \<Rightarrow> nat" where
  "ipl s = unat (drop_bit 8 (sr s AND 0x0700))"

lemmas clock_ref_defs = CLOCK_REF_HZ_def CLOCK_REF_KHZ_def CLOCK_REF_MHZ_def

subsection \<open>Reading the clock\<close>

lemma sr_mask_roundtrip: "(w OR 0x0700) AND 0xf8ff = w AND 0xf8ff" for w :: u16
  by (simp add: bit.conj_disj_distrib2)

lemma clock_get_ticks_eq:
  "clock_get_ticks s = (ticks s, s\<lparr>ticks_latch := ticks s, sr := sr s AND 0xf8ff\<rparr>)"
  by (simp add: clock_get_ticks_def disable_interrupts_def write_latch_def enable_interrupts_def
      sr_mask_roundtrip Let_def)

lemma fst_clock_get_ticks [simp]: "fst (clock_get_ticks s) = ticks s"
  by (simp add: clock_get_ticks_eq)

lemma snd_clock_get_ticks:
  "snd (clock_get_ticks s) = s\<lparr>ticks_latch := ticks s, sr := sr s AND 0xf8ff\<rparr>"
  by (simp add: clock_get_ticks_eq)

lemma ticks_snd_clock_get_ticks [simp, frame_simps]: "ticks (snd (clock_get_ticks s)) = ticks s"
  by (simp add: clock_get_ticks_eq)

text \<open>C15. Reading the clock returns the counter as it was when the latch was written, leaves the
  counter alone, and ends with every interrupt level enabled whatever the mask was on entry: the
  mask is cleared, not restored, while every other bit of the status register is kept.\<close>

theorem clock_get_ticks_unmasks:
  "fst (clock_get_ticks s) = ticks s \<and>
   ticks (snd (clock_get_ticks s)) = ticks s \<and>
   ipl (snd (clock_get_ticks s)) = 0 \<and>
   sr (snd (clock_get_ticks s)) AND 0xf8ff = sr s AND 0xf8ff"
  by (simp add: clock_get_ticks_eq ipl_def and.assoc)

subsection \<open>Converting ticks\<close>

lemma unat_ms: "unat (fst (clock_ticks_to_ms_us t)) = unat t div 10000"
  by (simp add: clock_ticks_to_ms_us_def clock_ref_defs unat_div)

lemma unat_us: "unat (snd (clock_ticks_to_ms_us t)) = unat t div 10 mod 1000"
  by (simp add: clock_ticks_to_ms_us_def clock_ref_defs unat_div unat_mod)

text \<open>C14. The split of a tick count into milliseconds and microseconds is exact to the
  microsecond: the microseconds stay below 1000 and the two parts and the remainder below one
  microsecond add up to the count.\<close>

theorem clock_ticks_to_ms_us_exact:
  "case clock_ticks_to_ms_us t of (ms, us) \<Rightarrow>
     unat us < 1000 \<and> unat t = unat ms * 10000 + unat us * 10 + unat t mod 10"
proof -
  define n where "n = unat t"
  have "n div 10 = n div 10000 * 1000 + n div 10 mod 1000"
    using div_mult_mod_eq [of "n div 10" 1000] by (simp add: div_mult2_eq [symmetric])
  moreover have "n = n div 10 * 10 + n mod 10"
    by simp
  ultimately have "n = n div 10000 * 10000 + n div 10 mod 1000 * 10 + n mod 10"
    by linarith
  then show ?thesis
    by (simp add: split_beta unat_ms unat_us n_def)
qed

end
