(* ===== verification/Input.thy ===== *)
theory Input
  imports Laggy_Prelude
begin

text \<open>
  The gamepad driver (input.c, input.h): one poll per frame samples the port and derives the
  buttons that went down and the buttons that came up since the previous poll.
\<close>

definition INPUT_RIGHT :: u16 where "INPUT_RIGHT = push_bit 0 1"
definition INPUT_LEFT :: u16 where "INPUT_LEFT = push_bit 1 1"
definition INPUT_DOWN :: u16 where "INPUT_DOWN = push_bit 2 1"
definition INPUT_UP :: u16 where "INPUT_UP = push_bit 3 1"
definition INPUT_OK :: u16 where "INPUT_OK = push_bit 4 1"
definition INPUT_BACK :: u16 where "INPUT_BACK = push_bit 5 1"
definition INPUT_MENU :: u16 where "INPUT_MENU = push_bit 6 1"

lemmas input_defs = INPUT_RIGHT_def INPUT_LEFT_def INPUT_DOWN_def INPUT_UP_def INPUT_OK_def
  INPUT_BACK_def INPUT_MENU_def

record input =
  gamepad_prev :: u16
  gamepad :: u16
  gamepad_pressed :: u16
  gamepad_released :: u16

text \<open>The static variables start as zero.\<close>

definition input_start :: input where
  "input_start = \<lparr>gamepad_prev = 0, gamepad = 0, gamepad_pressed = 0, gamepad_released = 0\<rparr>"

text \<open>The port's value at the poll is the first argument.\<close>

definition input_poll :: "u16 \<Rightarrow> 'a input_scheme \<Rightarrow> 'a input_scheme" where
  "input_poll gamepad_port s =
     (let g = gamepad_port;
          pressed = (g XOR gamepad_prev s) AND g;
          released = (g XOR gamepad_prev s) AND gamepad_prev s
      in s\<lparr>gamepad := g, gamepad_pressed := pressed, gamepad_released := released,
            gamepad_prev := g\<rparr>)"

definition input_pressed :: "'a input_scheme \<Rightarrow> u16" where
  "input_pressed s = gamepad_pressed s"

definition input_state :: "'a input_scheme \<Rightarrow> u16" where
  "input_state s = gamepad s"

definition input_released :: "'a input_scheme \<Rightarrow> u16" where
  "input_released s = gamepad_released s"

text \<open>The driver over a whole session, and the polls at which one button is reported.\<close>

fun input_run :: "u16 list \<Rightarrow> input \<Rightarrow> input" where
  "input_run [] s = s"
| "input_run (p # ps) s = input_run ps (input_poll p s)"

fun presses :: "nat \<Rightarrow> u16 list \<Rightarrow> input \<Rightarrow> nat" where
  "presses n [] s = 0"
| "presses n (p # ps) s =
     (if bit (input_pressed (input_poll p s)) n then 1 else 0) + presses n ps (input_poll p s)"

fun releases :: "nat \<Rightarrow> u16 list \<Rightarrow> input \<Rightarrow> nat" where
  "releases n [] s = 0"
| "releases n (p # ps) s =
     (if bit (input_released (input_poll p s)) n then 1 else 0) + releases n ps (input_poll p s)"

subsection \<open>Edges\<close>

lemma bit_pressed_iff:
  "bit (input_pressed (input_poll p s)) n \<longleftrightarrow> bit p n \<and> \<not> bit (gamepad_prev s) n"
  by (auto simp: input_pressed_def input_poll_def bit_simps dest: bit_imp_le_length)

lemma bit_released_iff:
  "bit (input_released (input_poll p s)) n \<longleftrightarrow> \<not> bit p n \<and> bit (gamepad_prev s) n"
  by (auto simp: input_released_def input_poll_def bit_simps dest: bit_imp_le_length)

lemma prev_input_poll [simp]: "gamepad_prev (input_poll p s) = p"
  by (simp add: input_poll_def Let_def)

lemma state_input_poll [simp]: "input_state (input_poll p s) = p"
  by (simp add: input_poll_def input_state_def Let_def)

text \<open>A poll reports a button as pressed exactly when it is down now and was up at the
  previous poll, and as released exactly in the opposite case; the state it reports is the port.\<close>

lemma input_poll_edges:
  "input_state (input_poll q (input_poll p s)) = q \<and>
   (bit (input_pressed (input_poll q (input_poll p s))) n \<longleftrightarrow> bit q n \<and> \<not> bit p n) \<and>
   (bit (input_released (input_poll q (input_poll p s))) n \<longleftrightarrow> bit p n \<and> \<not> bit q n)"
  by (auto simp: bit_pressed_iff bit_released_iff)

lemma presses_releases_from:
  "presses n ps s + (if bit (gamepad_prev s) n then 1 else 0) =
   releases n ps s + (if bit (gamepad_prev (input_run ps s)) n then 1 else 0)"
proof (induction ps arbitrary: s)
  case Nil
  then show ?case by simp
next
  case (Cons p ps)
  from Cons.IH [of "input_poll p s"] show ?case
    by (auto simp: bit_pressed_iff bit_released_iff split: if_splits)
qed

text \<open>C13. Over a whole session no press is lost or reported twice: the presses of a button and
  its releases alternate, so their counts differ by one while it is held and are equal otherwise.\<close>

theorem input_no_lost_press:
  "presses n ps input_start =
     releases n ps input_start + (if bit (gamepad_prev (input_run ps input_start)) n then 1 else 0)"
  using presses_releases_from [of n ps input_start] by (simp add: input_start_def)

end
