(* ===== verification/Interrupts.thy ===== *)
theory Interrupts
  imports Laggy_Prelude
begin

text \<open>
  The exception vectors and the default handlers (init.c, interrupts.h, interrupts_default.c), and
  the start-up code that fills the data segment and clears the bss segment before main runs.
\<close>

subsection \<open>Vectors and default handlers\<close>

datatype isr =
    bus_error_handler | address_error_handler | illegal_instruction_handler
  | zero_divide_handler | chk_handler | trapv_handler | priv_violation_handler | trace_handler
  | trap_1010_handler | trap_1111_handler | uninitialized_handler | spurious_handler
  | level1_handler | level2_handler | level3_handler | level4_handler | level5_handler
  | level6_handler | level7_handler
  | trap0_handler | trap1_handler | trap2_handler | trap3_handler
  | trap4_handler | trap5_handler | trap6_handler | trap7_handler
  | trap8_handler | trap9_handler | trap10_handler | trap11_handler
  | trap12_handler | trap13_handler | trap14_handler | trap15_handler

datatype vector = estack | reset_handler | Handler isr | Null

definition exception_vectors :: "vector list" where
  "exception_vectors =
    [estack,
     reset_handler,
     Handler bus_error_handler,
     Handler address_error_handler,
     Handler illegal_instruction_handler,
     Handler zero_divide_handler,
     Handler chk_handler,
     Handler trapv_handler,
     Handler priv_violation_handler,
     Handler trace_handler,
     Handler trap_1010_handler,
     Handler trap_1111_handler,
     Null,
     Null,
     Null,
     Handler uninitialized_handler,
     Null,
     Null,
     Null,
     Null,
     Null,
     Null,
     Null,
     Null,
     Handler spurious_handler,
     Handler level1_handler,
     Handler level2_handler,
     Handler level3_handler,
     Handler level4_handler,
     Handler level5_handler,
     Handler level6_handler,
     Handler level7_handler,
     Handler trap0_handler,
     Handler trap1_handler,
     Handler trap2_handler,
     Handler trap3_handler,
     Handler trap4_handler,
     Handler trap5_handler,
     Handler trap6_handler,
     Handler trap7_handler,
     Handler trap8_handler,
     Handler trap9_handler,
     Handler trap10_handler,
     Handler trap11_handler,
     Handler trap12_handler,
     Handler trap13_handler,
     Handler trap14_handler,
     Handler trap15_handler] @ replicate 208 Null"

text \<open>What a weak default handler does: return from the exception, or loop for ever.\<close>

datatype isr_action = Return | Spin

fun default_handler :: "isr \<Rightarrow> isr_action" where
  "default_handler bus_error_handler = Spin"
| "default_handler address_error_handler = Spin"
| "default_handler illegal_instruction_handler = Spin"
| "default_handler _ = Return"

text \<open>main.c defines strong versions of three level handlers; the linker prefers those.\<close>

datatype linked = Strong isr | Weak isr_action

definition strong_handlers :: "isr list" where
  "strong_handlers = [level2_handler, level4_handler, level6_handler]"

definition link_handler :: "isr \<Rightarrow> linked" where
  "link_handler h = (if h \<in> set strong_handlers then Strong h else Weak (default_handler h))"

definition autovector :: "nat \<Rightarrow> isr" where
  "autovector n =
     [level1_handler, level2_handler, level3_handler, level4_handler, level5_handler,
      level6_handler, level7_handler] ! (n - 1)"

subsection \<open>Start-up\<close>

text \<open>
  Memory as 16-bit cells, addressed by the pointer divided by two. The linker symbols are the
  arguments. The two loops move one pointer up to a bound.
\<close>

type_synonym ram = "u32 \<Rightarrow> u16"

function copy_data :: "u32 \<Rightarrow> u32 \<Rightarrow> u32 \<Rightarrow> ram \<Rightarrow> ram" where
  "copy_data init_values_ptr data_ptr edata m =
     (if data_ptr < edata
      then copy_data (init_values_ptr + 1) (data_ptr + 1) edata
             (m(data_ptr := m init_values_ptr))
      else m)"
  by pat_completeness auto
termination
  by (relation "measure (\<lambda>(i, d, e, m). unat (e - d))") (auto simp: unat_minus_decreases)

function clear_bss :: "u32 \<Rightarrow> u32 \<Rightarrow> ram \<Rightarrow> ram" where
  "clear_bss bss_ptr ebss m =
     (if bss_ptr < ebss then clear_bss (bss_ptr + 1) ebss (m(bss_ptr := 0)) else m)"
  by pat_completeness auto
termination
  by (relation "measure (\<lambda>(b, e, m). unat (e - b))") (auto simp: unat_minus_decreases)

record segments =
  etext :: u32
  sbss :: u32
  ebss :: u32
  sdata :: u32
  edata :: u32

text \<open>The part of reset_handler before it branches to main.\<close>

definition reset_memory :: "segments \<Rightarrow> ram \<Rightarrow> ram" where
  "reset_memory g m =
     (let m1 = (if etext g \<noteq> sdata g then copy_data (etext g) (sdata g) (edata g) m else m)
      in clear_bss (sbss g) (ebss g) m1)"

text \<open>A layout as the linker script produces it.\<close>

definition example_segments :: segments where
  "example_segments = \<lparr>etext = 0x8000, sbss = 0x80000, ebss = 0x80100, sdata = 0x80100,
     edata = 0x80140\<rparr>"

declare copy_data.simps [simp del] clear_bss.simps [simp del]

subsection \<open>What the vectors reach\<close>

text \<open>The interrupt and trap entries of the table sit at the numbers the processor uses for them: an
  interrupt of level 1 to 7 fetches the handler of that level, a trap instruction its own trap handler,
  and the table fills its page of 256 entries. After linking, levels 2, 4 and 6 run the handlers of
  main.c and every other level returns at once.\<close>

lemma exception_vectors_dispatch:
  "length exception_vectors = 256 \<and>
   map (\<lambda>n. exception_vectors ! (24 + n)) [1..<8] = map (\<lambda>n. Handler (autovector n)) [1..<8] \<and>
   map (\<lambda>n. link_handler (autovector n)) [1..<8] =
     [Weak Return, Strong level2_handler, Weak Return, Strong level4_handler, Weak Return,
      Strong level6_handler, Weak Return] \<and>
   map (case_vector None None Some None) (take 16 (drop 32 exception_vectors)) =
     map Some [trap0_handler, trap1_handler, trap2_handler, trap3_handler, trap4_handler,
       trap5_handler, trap6_handler, trap7_handler, trap8_handler, trap9_handler, trap10_handler,
       trap11_handler, trap12_handler, trap13_handler, trap14_handler, trap15_handler]"
proof (intro conjI)
  show "length exception_vectors = 256"
    by (simp add: exception_vectors_def)
  show "map (\<lambda>n. exception_vectors ! (24 + n)) [1..<8] =
      map (\<lambda>n. Handler (autovector n)) [1..<8]"
    by (simp add: exception_vectors_def autovector_def upt_rec)
  show "map (\<lambda>n. link_handler (autovector n)) [1..<8] =
     [Weak Return, Strong level2_handler, Weak Return, Strong level4_handler, Weak Return,
      Strong level6_handler, Weak Return]"
    by (simp add: autovector_def link_handler_def strong_handlers_def upt_rec)
  show "map (case_vector None None Some None) (take 16 (drop 32 exception_vectors)) =
     map Some [trap0_handler, trap1_handler, trap2_handler, trap3_handler, trap4_handler,
       trap5_handler, trap6_handler, trap7_handler, trap8_handler, trap9_handler, trap10_handler,
       trap11_handler, trap12_handler, trap13_handler, trap14_handler, trap15_handler]"
    by (simp add: exception_vectors_def)
qed

subsection \<open>The segments after start-up\<close>

lemma clear_bss_apply:
  "b \<le> e \<Longrightarrow> clear_bss b e m a = (if b \<le> a \<and> a < e then 0 else m a)"
proof (induction b e m rule: clear_bss.induct)
  case (1 b e m)
  show ?case
  proof (cases "b < e")
    case True
    have "clear_bss (b + 1) e (m(b := 0)) a = (if b < a \<and> a < e then 0 else (m(b := 0)) a)"
      using "1.IH" [OF True] True by (simp only: inc_le inc_le_iff_below [OF True])
    with True show ?thesis
      by (auto simp: clear_bss.simps [of b e m])
  next
    case False
    then show ?thesis
      by (subst clear_bss.simps) auto
  qed
qed

lemma copy_data_apply:
  "d \<le> e \<Longrightarrow> unat i + unat (e - d) \<le> unat d \<Longrightarrow>
   copy_data i d e m a = (if d \<le> a \<and> a < e then m (i + (a - d)) else m a)"
proof (induction i d e m rule: copy_data.induct)
  case (1 i d e m)
  show ?case
  proof (cases "d < e")
    case True
    have ed: "unat (e - d) = unat e - unat d" "unat (e - (d + 1)) = unat e - Suc (unat d)"
      using True by (simp_all add: unat_sub inc_le unat_Suc_less less_imp_le)
    have ud: "unat d < unat e"
      using True by (simp add: word_less_nat_alt)
    have "i < d"
      using "1.prems" ed ud by (simp add: word_less_nat_alt)
    then have ui: "unat (i + 1) = Suc (unat i)"
      by (rule unat_Suc_less)
    have rec: "copy_data (i + 1) (d + 1) e (m(d := m i)) a =
        (if d < a \<and> a < e then (m(d := m i)) (i + (a - d)) else (m(d := m i)) a)"
    proof -
      have pre: "d + 1 \<le> e" "unat (i + 1) + unat (e - (d + 1)) \<le> unat (d + 1)"
        using "1.prems" ed ud ui True by (simp_all add: inc_le unat_Suc_less)
      have shift: "i + 1 + (a - (d + 1)) = i + (a - d)"
        by simp
      show ?thesis
        using "1.IH" [OF True pre] unfolding inc_le_iff_below [OF True] shift .
    qed
    have "i + (a - d) \<noteq> d" if "d < a" "a < e"
    proof -
      have "unat (a - d) < unat (e - d)"
        using that True by (simp add: unat_sub less_imp_le word_less_nat_alt)
      then have "unat i + unat (a - d) < unat d"
        using "1.prems" by simp
      moreover have "unat (i + (a - d)) \<le> unat i + unat (a - d)"
        by (simp add: unat_word_ariths)
      ultimately have "unat (i + (a - d)) < unat d"
        by (rule le_less_trans [rotated])
      then show ?thesis
        by (metis less_irrefl)
    qed
    with rec True show ?thesis
      by (auto simp: copy_data.simps [of i d e m])
  next
    case False
    then show ?thesis
      by (subst copy_data.simps) auto
  qed
qed

text \<open>C12. After start-up the data segment holds its image from the end of the text segment, the
  bss segment is zero, and no other cell has changed, for the layout of the linker script: the
  image lies below the data segment, and the two RAM segments do not overlap.\<close>

theorem reset_memory_correct:
  assumes "sdata g \<le> edata g" and "sbss g \<le> ebss g"
    and "ebss g \<le> sdata g"
    and "unat (etext g) + unat (edata g - sdata g) \<le> unat (sdata g)"
  shows "reset_memory g m a =
    (if sbss g \<le> a \<and> a < ebss g then 0
     else if sdata g \<le> a \<and> a < edata g then m (etext g + (a - sdata g))
     else m a)"
  using assms by (auto simp: reset_memory_def clear_bss_apply copy_data_apply)

theorem reset_memory_correct_witness:
  "reset_memory example_segments (\<lambda>a. ucast a + 7) 0x80110 = 0x8017 \<and>
   reset_memory example_segments (\<lambda>a. ucast a + 7) 0x80000 = 0 \<and>
   reset_memory example_segments (\<lambda>a. ucast a + 7) 0x80140 = 0x0147"
proof -
  have h: "sdata example_segments \<le> edata example_segments"
    "sbss example_segments \<le> ebss example_segments"
    "ebss example_segments \<le> sdata example_segments"
    "unat (etext example_segments) + unat (edata example_segments - sdata example_segments)
       \<le> unat (sdata example_segments)"
    by (simp_all add: example_segments_def)
  show ?thesis
    unfolding reset_memory_correct [OF h] by (simp add: example_segments_def)
qed

end
