(* ===== verification/Printf.thy ===== *)
theory Printf
  imports Laggy_Prelude
begin

text \<open>
  The printf library as the firmware configures it (printf.c with the decimal, exponential and
  long long conversions switched off by the Makefile): the output gadget, the integer formatter and
  the format string loop.

  Conventions. A C string is the list of its characters before the terminating NUL. A buffer is
  the array object a pointer designates, or \<^term>\<open>None\<close> for a null pointer. The local array
  \<open>buf\<close> of the integer formatter together with \<open>len\<close> is the list of the \<open>len\<close> characters
  stored so far. \<^term>\<open>None\<close> as a result means undefined behaviour: a store outside an array, a
  store through a null pointer, a read past the end of the format or a missing argument.
\<close>

subsection \<open>Flags and bounds\<close>

definition FLAGS_ZEROPAD :: u32 where "FLAGS_ZEROPAD = push_bit 0 1"
definition FLAGS_LEFT :: u32 where "FLAGS_LEFT = push_bit 1 1"
definition FLAGS_PLUS :: u32 where "FLAGS_PLUS = push_bit 2 1"
definition FLAGS_SPACE :: u32 where "FLAGS_SPACE = push_bit 3 1"
definition FLAGS_HASH :: u32 where "FLAGS_HASH = push_bit 4 1"
definition FLAGS_UPPERCASE :: u32 where "FLAGS_UPPERCASE = push_bit 5 1"
definition FLAGS_CHAR :: u32 where "FLAGS_CHAR = push_bit 6 1"
definition FLAGS_SHORT :: u32 where "FLAGS_SHORT = push_bit 7 1"
definition FLAGS_INT :: u32 where "FLAGS_INT = push_bit 8 1"
definition FLAGS_LONG :: u32 where "FLAGS_LONG = push_bit 9 1"
definition FLAGS_LONG_LONG :: u32 where "FLAGS_LONG_LONG = push_bit 10 1"
definition FLAGS_PRECISION :: u32 where "FLAGS_PRECISION = push_bit 11 1"
definition FLAGS_ADAPT_EXP :: u32 where "FLAGS_ADAPT_EXP = push_bit 12 1"
definition FLAGS_POINTER :: u32 where "FLAGS_POINTER = push_bit 13 1"
definition FLAGS_SIGNED :: u32 where "FLAGS_SIGNED = push_bit 14 1"

lemmas flag_defs = FLAGS_ZEROPAD_def FLAGS_LEFT_def FLAGS_PLUS_def FLAGS_SPACE_def FLAGS_HASH_def
  FLAGS_UPPERCASE_def FLAGS_CHAR_def FLAGS_SHORT_def FLAGS_INT_def FLAGS_LONG_def
  FLAGS_LONG_LONG_def FLAGS_PRECISION_def FLAGS_ADAPT_EXP_def FLAGS_POINTER_def FLAGS_SIGNED_def

definition PRINTF_INTEGER_BUFFER_SIZE :: nat where "PRINTF_INTEGER_BUFFER_SIZE = 32"
definition PRINTF_MAX_POSSIBLE_BUFFER_SIZE :: u32 where
  "PRINTF_MAX_POSSIBLE_BUFFER_SIZE = 0x7fffffff"

definition BASE_BINARY :: u8 where "BASE_BINARY = 2"
definition BASE_OCTAL :: u8 where "BASE_OCTAL = 8"
definition BASE_DECIMAL :: u8 where "BASE_DECIMAL = 10"
definition BASE_HEX :: u8 where "BASE_HEX = 16"

lemmas base_defs = BASE_BINARY_def BASE_OCTAL_def BASE_DECIMAL_def BASE_HEX_def

subsection \<open>The output gadget\<close>

record 'e output_gadget =
  gadget_function :: "(char \<Rightarrow> 'e \<Rightarrow> 'e) option"
  extra_function_arg :: 'e
  buffer :: "char list option"
  pos :: u32
  max_chars :: u32

definition putchar_via_gadget ::
  "char \<Rightarrow> ('e, 'm) output_gadget_scheme \<Rightarrow> ('e, 'm) output_gadget_scheme option" where
  "putchar_via_gadget c gadget =
     (let write_pos = pos gadget;
          gadget1 = gadget\<lparr>pos := pos gadget + 1\<rparr>
      in if write_pos \<ge> max_chars gadget then Some gadget1
         else case gadget_function gadget of
             Some f \<Rightarrow>
               Some (gadget1\<lparr>extra_function_arg := f c (extra_function_arg gadget)\<rparr>)
           | None \<Rightarrow>
               (case buffer gadget of
                  None \<Rightarrow> None
                | Some b \<Rightarrow>
                    if unat write_pos < length b
                    then Some (gadget1\<lparr>buffer := Some (b[unat write_pos := c])\<rparr>)
                    else None))"

definition NUL :: char where "NUL = CHR 0x00"

definition append_termination_with_gadget ::
  "('e, 'm) output_gadget_scheme \<Rightarrow> ('e, 'm) output_gadget_scheme option" where
  "append_termination_with_gadget gadget =
     (if \<not> Option.is_none (gadget_function gadget) \<or> max_chars gadget = 0 then Some gadget
      else case buffer gadget of
          None \<Rightarrow> Some gadget
        | Some b \<Rightarrow>
            (let null_char_pos =
               (if pos gadget < max_chars gadget then pos gadget else max_chars gadget - 1)
             in if unat null_char_pos < length b
                then Some (gadget\<lparr>buffer := Some (b[unat null_char_pos := NUL])\<rparr>)
                else None))"

definition discarding_gadget :: "'e \<Rightarrow> 'e output_gadget" where
  "discarding_gadget unused =
     \<lparr>gadget_function = None, extra_function_arg = unused, buffer = None, pos = 0,
      max_chars = 0\<rparr>"

definition buffer_gadget :: "char list option \<Rightarrow> u32 \<Rightarrow> unit output_gadget" where
  "buffer_gadget buf buffer_size =
     (let usable_buffer_size =
            (if buffer_size > PRINTF_MAX_POSSIBLE_BUFFER_SIZE
             then PRINTF_MAX_POSSIBLE_BUFFER_SIZE else buffer_size);
          result = discarding_gadget ()
      in if buf \<noteq> None
         then result\<lparr>buffer := buf, max_chars := usable_buffer_size\<rparr> else result)"

definition function_gadget :: "(char \<Rightarrow> 'e \<Rightarrow> 'e) \<Rightarrow> 'e \<Rightarrow> 'e output_gadget" where
  "function_gadget f extra_arg =
     (discarding_gadget extra_arg)
       \<lparr>gadget_function := Some f, max_chars := PRINTF_MAX_POSSIBLE_BUFFER_SIZE\<rparr>"

text \<open>The firmware's putchar_ has an empty body.\<close>

definition putchar_wrapper :: "char \<Rightarrow> unit \<Rightarrow> unit" where
  "putchar_wrapper c unused = ()"

definition extern_putchar_gadget :: "unit output_gadget" where
  "extern_putchar_gadget = function_gadget putchar_wrapper ()"

subsection \<open>Small helpers\<close>

fun strnlen_s :: "char list \<Rightarrow> u32 \<Rightarrow> u32" where
  "strnlen_s [] maxsize = 0"
| "strnlen_s (c # s) maxsize = (if maxsize \<noteq> 0 then 1 + strnlen_s s (maxsize - 1) else 0)"

definition is_digit :: "char \<Rightarrow> bool" where
  "is_digit ch \<longleftrightarrow> of_char ch \<ge> (48 :: nat) \<and> of_char ch \<le> (57 :: nat)"

fun atou_loop :: "u32 \<Rightarrow> char list \<Rightarrow> u32 \<times> char list" where
  "atou_loop i [] = (i, [])"
| "atou_loop i (c # s) =
     (if is_digit c then atou_loop (i * 10 + (of_char c - 48)) s else (i, c # s))"

definition atou :: "char list \<Rightarrow> u32 \<times> char list" where
  "atou str = atou_loop 0 str"

subsection \<open>Padding and reversal\<close>

function pad_spaces ::
  "u32 \<Rightarrow> u32 \<Rightarrow> ('e, 'm) output_gadget_scheme \<Rightarrow> ('e, 'm) output_gadget_scheme option" where
  "pad_spaces i width output =
     (if i < width
      then (case putchar_via_gadget CHR '' '' output of
              None \<Rightarrow> None
            | Some output1 \<Rightarrow> pad_spaces (i + 1) width output1)
      else Some output)"
  by pat_completeness auto
termination
  by (relation "measure (\<lambda>(i, w, g). unat (w - i))") (auto simp: unat_minus_decreases)

text \<open>\<open>while (len) putchar_via_gadget(output, buf[--len])\<close>\<close>

primrec out_chars_down ::
  "char list \<Rightarrow> nat \<Rightarrow> ('e, 'm) output_gadget_scheme \<Rightarrow> ('e, 'm) output_gadget_scheme option"
  where
  "out_chars_down buf 0 output = Some output"
| "out_chars_down buf (Suc len) output =
     (case putchar_via_gadget (buf ! len) output of
        None \<Rightarrow> None
      | Some output1 \<Rightarrow> out_chars_down buf len output1)"

lemma putchar_via_gadget_pos:
  "putchar_via_gadget c g = Some g' \<Longrightarrow> pos g' = pos g + 1"
  by (auto simp: putchar_via_gadget_def Let_def split: if_splits option.splits)

function pad_after ::
  "u32 \<Rightarrow> u32 \<Rightarrow> ('e, 'm) output_gadget_scheme \<Rightarrow> ('e, 'm) output_gadget_scheme option" where
  "pad_after start_pos width output =
     (if pos output - start_pos < width
      then (case putchar_via_gadget CHR '' '' output of
              None \<Rightarrow> None
            | Some output1 \<Rightarrow> pad_after start_pos width output1)
      else Some output)"
  by pat_completeness auto
termination
proof (relation "measure (\<lambda>(s, w, g). unat (w - (pos g - s)))", goal_cases)
  case (2 s w g g')
  then show ?case
    using unat_minus_decreases [of "pos g - s" w] putchar_via_gadget_pos [of _ g g']
    by (simp add: algebra_simps)
qed simp

definition out_rev ::
  "('e, 'm) output_gadget_scheme \<Rightarrow> char list \<Rightarrow> u32 \<Rightarrow> u32
     \<Rightarrow> ('e, 'm) output_gadget_scheme option" where
  "out_rev output buf width flags =
     do {
       let start_pos = pos output;
       output1 \<leftarrow> (if \<not> has_flag flags FLAGS_LEFT \<and> \<not> has_flag flags FLAGS_ZEROPAD
                   then pad_spaces (of_nat (length buf)) width output else Some output);
       output2 \<leftarrow> out_chars_down buf (length buf) output1;
       (if has_flag flags FLAGS_LEFT then pad_after start_pos width output2 else Some output2)
     }"

declare pad_spaces.simps [simp del] pad_after.simps [simp del]

subsection \<open>Integers\<close>

text \<open>\<open>buf[len++] = c\<close>, undefined when the array is full.\<close>

definition buf_push :: "char \<Rightarrow> char list \<Rightarrow> char list option" where
  "buf_push c buf =
     (if length buf < PRINTF_INTEGER_BUFFER_SIZE then Some (buf @ [c]) else None)"

text \<open>\<open>while ((len < limit) && (len < PRINTF_INTEGER_BUFFER_SIZE)) buf[len++] = '0'\<close>\<close>

function zero_fill :: "u32 \<Rightarrow> char list \<Rightarrow> char list option" where
  "zero_fill limit buf =
     (if of_nat (length buf) < limit \<and> length buf < PRINTF_INTEGER_BUFFER_SIZE
      then (case buf_push CHR ''0'' buf of
              None \<Rightarrow> None
            | Some buf1 \<Rightarrow> zero_fill limit buf1)
      else Some buf)"
  by pat_completeness auto
termination
  by (relation "measure (\<lambda>(l, b). PRINTF_INTEGER_BUFFER_SIZE - length b)")
    (auto simp: buf_push_def split: if_splits)

definition drop_hash :: "u32 \<Rightarrow> u32" where
  "drop_hash flags = flags AND NOT FLAGS_HASH"

text \<open>Taking back padding digits for the prefix: each \<open>len--\<close> drops the last character.\<close>

definition reclaim_padding :: "u8 \<Rightarrow> nat \<Rightarrow> char list \<Rightarrow> char list" where
  "reclaim_padding base unpadded_len buf =
     (let buf1 = (if unpadded_len < length buf then butlast buf else buf)
      in if length buf1 \<noteq> 0 \<and> (base = BASE_HEX \<or> base = BASE_BINARY) \<and> unpadded_len < length buf1
         then butlast buf1 else buf1)"

definition push_prefix :: "u8 \<Rightarrow> u32 \<Rightarrow> char list \<Rightarrow> char list option" where
  "push_prefix base flags buf =
     do {
       buf1 \<leftarrow>
         (if base = BASE_HEX \<and> \<not> has_flag flags FLAGS_UPPERCASE
              \<and> length buf < PRINTF_INTEGER_BUFFER_SIZE
          then buf_push CHR ''x'' buf
          else if base = BASE_HEX \<and> has_flag flags FLAGS_UPPERCASE
              \<and> length buf < PRINTF_INTEGER_BUFFER_SIZE
          then buf_push CHR ''X'' buf
          else if base = BASE_BINARY \<and> length buf < PRINTF_INTEGER_BUFFER_SIZE
          then buf_push CHR ''b'' buf
          else Some buf);
       (if length buf1 < PRINTF_INTEGER_BUFFER_SIZE then buf_push CHR ''0'' buf1 else Some buf1)
     }"

definition push_sign :: "bool \<Rightarrow> u32 \<Rightarrow> char list \<Rightarrow> char list option" where
  "push_sign negative flags buf =
     (if length buf < PRINTF_INTEGER_BUFFER_SIZE
      then (if negative then buf_push CHR ''-'' buf
            else if has_flag flags FLAGS_PLUS then buf_push CHR ''+'' buf
            else if has_flag flags FLAGS_SPACE then buf_push CHR '' '' buf
            else Some buf)
      else Some buf)"

text \<open>What print_integer_finalization does to the buffer, the width and the flags before it hands
  them to out_rev.\<close>

definition finalize_buf ::
  "char list \<Rightarrow> bool \<Rightarrow> u8 \<Rightarrow> u32 \<Rightarrow> u32 \<Rightarrow> u32 \<Rightarrow> (char list \<times> u32 \<times> u32) option" where
  "finalize_buf buf negative base precision width flags =
     do {
       let unpadded_len = length buf;
       let width1 =
         (if \<not> has_flag flags FLAGS_LEFT \<and> width \<noteq> 0 \<and> has_flag flags FLAGS_ZEROPAD
              \<and> (negative \<or> has_flag flags (FLAGS_PLUS OR FLAGS_SPACE))
          then width - 1 else width);
       buf1 \<leftarrow> (if \<not> has_flag flags FLAGS_LEFT \<and> has_flag flags FLAGS_ZEROPAD
                then zero_fill width1 buf else Some buf);
       buf2 \<leftarrow> zero_fill precision buf1;
       let flags1 =
         (if base = BASE_OCTAL \<and> length buf2 > unpadded_len then drop_hash flags else flags);
       buf3 \<leftarrow>
         (if has_flag flags1 (FLAGS_HASH OR FLAGS_POINTER)
          then push_prefix base flags1
            (if \<not> has_flag flags1 FLAGS_PRECISION \<and> length buf2 \<noteq> 0
                \<and> (of_nat (length buf2) = precision \<or> of_nat (length buf2) = width1)
             then reclaim_padding base unpadded_len buf2 else buf2)
          else Some buf2);
       buf4 \<leftarrow> push_sign negative flags1 buf3;
       Some (buf4, width1, flags1)
     }"

definition print_integer_finalization ::
  "('e, 'm) output_gadget_scheme \<Rightarrow> char list \<Rightarrow> bool \<Rightarrow> u8 \<Rightarrow> u32 \<Rightarrow> u32 \<Rightarrow> u32
     \<Rightarrow> ('e, 'm) output_gadget_scheme option" where
  "print_integer_finalization output buf negative base precision width flags =
     do {
       (buf1, width1, flags1) \<leftarrow> finalize_buf buf negative base precision width flags;
       out_rev output buf1 width1 flags1
     }"

definition digit_char :: "u32 \<Rightarrow> u32 \<Rightarrow> char" where
  "digit_char flags digit =
     (if digit < 10 then char_of (48 + unat digit)
      else char_of ((if has_flag flags FLAGS_UPPERCASE then 65 else 97) + unat digit - 10))"

text \<open>The do-while loop over the digits, least significant first.\<close>

function digits_loop :: "u32 \<Rightarrow> u8 \<Rightarrow> u32 \<Rightarrow> char list \<Rightarrow> char list option" where
  "digits_loop value base flags buf =
     (let digit = value mod ucast base;
          value1 = value div ucast base
      in case buf_push (digit_char flags digit) buf of
           None \<Rightarrow> None
         | Some buf1 \<Rightarrow>
             if value1 \<noteq> 0 \<and> length buf1 < PRINTF_INTEGER_BUFFER_SIZE
             then digits_loop value1 base flags buf1 else Some buf1)"
  by pat_completeness auto
termination
  by (relation "measure (\<lambda>(v, b, f, buf). PRINTF_INTEGER_BUFFER_SIZE - length buf)")
    (auto simp: buf_push_def split: if_splits)

text \<open>The digits in the local buffer and the flags after the case of a zero value.\<close>

definition integer_buf :: "u32 \<Rightarrow> u8 \<Rightarrow> u32 \<Rightarrow> (char list \<times> u32) option" where
  "integer_buf value base flags =
     (if value = 0
      then (if \<not> has_flag flags FLAGS_PRECISION
            then map_option (\<lambda>b. (b, drop_hash flags)) (buf_push CHR ''0'' [])
            else if base = BASE_HEX then Some ([], drop_hash flags)
            else Some ([], flags))
      else map_option (\<lambda>b. (b, flags)) (digits_loop value base flags []))"

definition print_integer ::
  "('e, 'm) output_gadget_scheme \<Rightarrow> u32 \<Rightarrow> bool \<Rightarrow> u8 \<Rightarrow> u32 \<Rightarrow> u32 \<Rightarrow> u32
     \<Rightarrow> ('e, 'm) output_gadget_scheme option" where
  "print_integer output value negative base precision width flags =
     do {
       (buf, flags1) \<leftarrow> integer_buf value base flags;
       print_integer_finalization output buf negative base precision width flags1
     }"

declare zero_fill.simps [simp del] digits_loop.simps [simp del]

subsection \<open>Parsing a conversion specification\<close>

text \<open>
  Variadic arguments: an int, long or their unsigned variants (all 32 bits here), a string or null
  passed for \<open>char*\<close>, another pointer. A stage of the parser either goes on, makes the loop
  return because the format ended, or is undefined.
\<close>

datatype va = VInt u32 | VStr "char list option" | VPtr u32

datatype 'a stage = Undef | Return | Next 'a

primrec and_then :: "'a stage \<Rightarrow> ('a \<Rightarrow> 'b stage) \<Rightarrow> 'b stage" where
  "and_then Undef k = Undef"
| "and_then Return k = Return"
| "and_then (Next x) k = k x"

fun advance_in_format_string :: "char list \<Rightarrow> char list stage" where
  "advance_in_format_string (_ # c # format) = Next (c # format)"
| "advance_in_format_string [_] = Return"
| "advance_in_format_string [] = Undef"

fun va_arg_int :: "va list \<Rightarrow> (u32 \<times> va list) stage" where
  "va_arg_int (VInt w # args) = Next (w, args)"
| "va_arg_int _ = Undef"

fun parse_flags :: "u32 \<Rightarrow> char list \<Rightarrow> u32 \<times> char list" where
  "parse_flags flags [] = (flags, [])"
| "parse_flags flags (c # format) =
     (if c = CHR ''0'' then parse_flags (flags OR FLAGS_ZEROPAD) format
      else if c = CHR ''-'' then parse_flags (flags OR FLAGS_LEFT) format
      else if c = CHR ''+'' then parse_flags (flags OR FLAGS_PLUS) format
      else if c = CHR '' '' then parse_flags (flags OR FLAGS_SPACE) format
      else if c = CHR ''#'' then parse_flags (flags OR FLAGS_HASH) format
      else (flags, c # format))"

text \<open>The character the format pointer is at, NUL at the end.\<close>

definition peek :: "char list \<Rightarrow> char" where
  "peek format = (case format of [] \<Rightarrow> NUL | c # _ \<Rightarrow> c)"

definition parse_width ::
  "u32 \<Rightarrow> char list \<Rightarrow> va list \<Rightarrow> (u32 \<times> u32 \<times> char list \<times> va list) stage" where
  "parse_width flags format args =
     (if is_digit (peek format)
      then (case atou format of (width, format1) \<Rightarrow> Next (flags, width, format1, args))
      else if peek format = CHR ''*''
      then and_then (va_arg_int args) (\<lambda>(w, args1).
             and_then (advance_in_format_string format) (\<lambda>format1.
               if w <s 0 then Next (flags OR FLAGS_LEFT, - w, format1, args1)
               else Next (flags, w, format1, args1)))
      else Next (flags, 0, format, args))"

definition parse_precision ::
  "u32 \<Rightarrow> char list \<Rightarrow> va list \<Rightarrow> (u32 \<times> u32 \<times> char list \<times> va list) stage" where
  "parse_precision flags format args =
     (if peek format = CHR ''.''
      then and_then (advance_in_format_string format) (\<lambda>format1.
             if is_digit (peek format1)
             then (case atou format1 of (precision, format2) \<Rightarrow>
                     Next (flags OR FLAGS_PRECISION, precision, format2, args))
             else if peek format1 = CHR ''*''
             then and_then (va_arg_int args) (\<lambda>(p, args1).
                    and_then (advance_in_format_string format1) (\<lambda>format2.
                      Next (flags OR FLAGS_PRECISION, (if 0 <s p then p else 0), format2, args1)))
             else Next (flags OR FLAGS_PRECISION, 0, format1, args))
      else Next (flags, 0, format, args))"

text \<open>On this target ptrdiff_t and size_t are as wide as long, intmax_t is not.\<close>

definition parse_length :: "u32 \<Rightarrow> char list \<Rightarrow> (u32 \<times> char list) stage" where
  "parse_length flags format =
     (if peek format = CHR ''l''
      then and_then (advance_in_format_string format) (\<lambda>format1.
             if peek format1 = CHR ''l''
             then and_then (advance_in_format_string format1) (\<lambda>format2.
                    Next ((flags OR FLAGS_LONG) OR FLAGS_LONG_LONG, format2))
             else Next (flags OR FLAGS_LONG, format1))
      else if peek format = CHR ''h''
      then and_then (advance_in_format_string format) (\<lambda>format1.
             if peek format1 = CHR ''h''
             then and_then (advance_in_format_string format1) (\<lambda>format2.
                    Next ((flags OR FLAGS_SHORT) OR FLAGS_CHAR, format2))
             else Next (flags OR FLAGS_SHORT, format1))
      else if peek format = CHR ''t'' \<or> peek format = CHR ''z''
      then and_then (advance_in_format_string format) (\<lambda>format1.
             Next (flags OR FLAGS_LONG, format1))
      else if peek format = CHR ''j''
      then and_then (advance_in_format_string format) (\<lambda>format1.
             Next (flags OR FLAGS_LONG_LONG, format1))
      else Next (flags, format))"

text \<open>Everything of a specification before its conversion character.\<close>

definition parse_spec ::
  "char list \<Rightarrow> va list \<Rightarrow> (u32 \<times> u32 \<times> u32 \<times> char list \<times> va list) stage" where
  "parse_spec format args =
     (case parse_flags 0 format of (flags, format1) \<Rightarrow>
        and_then (parse_width flags format1 args) (\<lambda>(flags1, width, format2, args1).
          and_then (parse_precision flags1 format2 args1) (\<lambda>(flags2, precision, format3, args2).
            and_then (parse_length flags2 format3) (\<lambda>(flags3, format4).
              Next (flags3, width, precision, format4, args2)))))"

subsection \<open>Conversions\<close>

text \<open>The stores made through the pointers of the \<open>n\<close> conversion, in order: the address, the
  number of bytes and the value.\<close>

record 'e printf_state = "'e output_gadget" +
  written :: "(u32 \<times> nat \<times> u32) list"

definition ABS_FOR_PRINTING :: "u32 \<Rightarrow> u32" where
  "ABS_FOR_PRINTING x = (if 0 <s x then x else - x)"

text \<open>What an integer conversion asks print_integer for: the magnitude, the sign, the base and the
  flags. A long long conversion consumes no argument and prints nothing, since support for it is
  compiled out.\<close>

definition integer_request ::
  "char \<Rightarrow> u32 \<Rightarrow> va list \<Rightarrow> (va list \<times> (u32 \<times> bool \<times> u8 \<times> u32) option) option" where
  "integer_request c flags args =
     (let flags1 = (if c = CHR ''d'' \<or> c = CHR ''i'' then flags OR FLAGS_SIGNED else flags);
          base = (if c = CHR ''x'' \<or> c = CHR ''X'' then BASE_HEX
                  else if c = CHR ''o'' then BASE_OCTAL
                  else if c = CHR ''b'' then BASE_BINARY
                  else BASE_DECIMAL);
          flags2 = (if base = BASE_DECIMAL then drop_hash flags1 else flags1);
          flags3 = (if c = CHR ''X'' then flags2 OR FLAGS_UPPERCASE else flags2);
          flags4 = (if has_flag flags3 FLAGS_PRECISION
                    then flags3 AND NOT FLAGS_ZEROPAD else flags3)
      in if has_flag flags4 FLAGS_SIGNED
         then (if has_flag flags4 FLAGS_LONG_LONG then Some (args, None)
               else case va_arg_int args of
                   Next (w, args1) \<Rightarrow>
                     (let value = (if has_flag flags4 FLAGS_LONG then w
                                   else if has_flag flags4 FLAGS_CHAR then scast (ucast w :: u8)
                                   else if has_flag flags4 FLAGS_SHORT then scast (ucast w :: u16)
                                   else w)
                      in Some (args1, Some (ABS_FOR_PRINTING value, value <s 0, base, flags4)))
                 | _ \<Rightarrow> None)
         else (let flags5 = flags4 AND NOT (FLAGS_PLUS OR FLAGS_SPACE)
               in if has_flag flags5 FLAGS_LONG_LONG then Some (args, None)
                  else case va_arg_int args of
                      Next (w, args1) \<Rightarrow>
                        (let value = (if has_flag flags5 FLAGS_LONG then w
                                      else if has_flag flags5 FLAGS_CHAR then ucast (ucast w :: u8)
                                      else if has_flag flags5 FLAGS_SHORT
                                      then ucast (ucast w :: u16)
                                      else w)
                         in Some (args1, Some (value, False, base, flags5)))
                    | _ \<Rightarrow> None))"

definition convert_integer ::
  "char \<Rightarrow> u32 \<Rightarrow> u32 \<Rightarrow> u32 \<Rightarrow> va list \<Rightarrow> 'e printf_state \<Rightarrow> (va list \<times> 'e printf_state) option"
  where
  "convert_integer c flags width precision args output =
     (case integer_request c flags args of
        None \<Rightarrow> None
      | Some (args1, None) \<Rightarrow> Some (args1, output)
      | Some (args1, Some (value, negative, base, flags1)) \<Rightarrow>
          map_option (Pair args1)
            (print_integer output value negative base precision width flags1))"

definition convert_char ::
  "u32 \<Rightarrow> u32 \<Rightarrow> va list \<Rightarrow> 'e printf_state \<Rightarrow> (va list \<times> 'e printf_state) option" where
  "convert_char flags width args output =
     (case va_arg_int args of
        Next (w, args1) \<Rightarrow>
          do {
            output1 \<leftarrow> (if \<not> has_flag flags FLAGS_LEFT then pad_spaces 1 width output
                        else Some output);
            output2 \<leftarrow> putchar_via_gadget (char_of (unat (ucast w :: u8))) output1;
            output3 \<leftarrow> (if has_flag flags FLAGS_LEFT then pad_spaces 1 width output2
                        else Some output2);
            Some (args1, output3)
          }
      | _ \<Rightarrow> None)"

text \<open>\<open>while ((*p != 0) && (!(flags & FLAGS_PRECISION) || precision))\<close>\<close>

fun put_string ::
  "u32 \<Rightarrow> u32 \<Rightarrow> char list \<Rightarrow> ('e, 'm) output_gadget_scheme
     \<Rightarrow> ('e, 'm) output_gadget_scheme option" where
  "put_string flags precision [] output = Some output"
| "put_string flags precision (c # p) output =
     (if \<not> has_flag flags FLAGS_PRECISION \<or> precision \<noteq> 0
      then (case putchar_via_gadget c output of
              None \<Rightarrow> None
            | Some output1 \<Rightarrow> put_string flags (precision - 1) p output1)
      else Some output)"

text \<open>The length the padding of a string counts with.\<close>

definition string_len :: "u32 \<Rightarrow> u32 \<Rightarrow> char list \<Rightarrow> u32" where
  "string_len flags precision p =
     (let l = strnlen_s p
            (if precision \<noteq> 0 then precision else PRINTF_MAX_POSSIBLE_BUFFER_SIZE)
      in if has_flag flags FLAGS_PRECISION
         then (if l < precision then l else precision) else l)"

definition convert_string ::
  "u32 \<Rightarrow> u32 \<Rightarrow> u32 \<Rightarrow> va list \<Rightarrow> 'e printf_state \<Rightarrow> (va list \<times> 'e printf_state) option" where
  "convert_string flags width precision args output =
     (case args of
        VStr None # args1 \<Rightarrow>
          map_option (Pair args1) (out_rev output '')llun('' width flags)
      | VStr (Some p) # args1 \<Rightarrow>
          do {
            let l = string_len flags precision p;
            output1 \<leftarrow> (if \<not> has_flag flags FLAGS_LEFT then pad_spaces l width output
                        else Some output);
            output2 \<leftarrow> put_string flags precision p output1;
            output3 \<leftarrow> (if has_flag flags FLAGS_LEFT then pad_spaces l width output2
                        else Some output2);
            Some (args1, output3)
          }
      | _ \<Rightarrow> None)"

definition convert_pointer ::
  "u32 \<Rightarrow> u32 \<Rightarrow> va list \<Rightarrow> 'e printf_state \<Rightarrow> (va list \<times> 'e printf_state) option" where
  "convert_pointer flags precision args output =
     (case args of
        VPtr value # args1 \<Rightarrow>
          (let width = 4 * 2 + 2;
               flags1 = (flags OR FLAGS_ZEROPAD) OR FLAGS_POINTER
           in map_option (Pair args1)
                (if value = 0 then out_rev output '')lin('' width flags1
                 else print_integer output value False BASE_HEX precision width flags1))
      | _ \<Rightarrow> None)"

definition writeback :: "u32 \<Rightarrow> u32 \<Rightarrow> u32 \<Rightarrow> u32 \<times> nat \<times> u32" where
  "writeback a flags n =
     (if has_flag flags FLAGS_CHAR then (a, 1, ucast (ucast n :: u8))
      else if has_flag flags FLAGS_SHORT then (a, 2, ucast (ucast n :: u16))
      else (a, 4, n))"

definition convert_writeback ::
  "u32 \<Rightarrow> va list \<Rightarrow> 'e printf_state \<Rightarrow> (va list \<times> 'e printf_state) option" where
  "convert_writeback flags args output =
     (case args of
        VPtr a # args1 \<Rightarrow>
          Some (args1, output\<lparr>written := written output @ [writeback a flags (pos output)]\<rparr>)
      | _ \<Rightarrow> None)"

text \<open>The switch over the conversion character. At the end of the format the default branch prints
  the NUL and moves the format pointer past it, which is undefined.\<close>

definition convert ::
  "u32 \<Rightarrow> u32 \<Rightarrow> u32 \<Rightarrow> char list \<Rightarrow> va list \<Rightarrow> 'e printf_state
     \<Rightarrow> (char list \<times> va list \<times> 'e printf_state) option" where
  "convert flags width precision format args output =
     (case format of
        [] \<Rightarrow> None
      | c # format1 \<Rightarrow>
          map_option (Pair format1)
            (if c \<in> set ''diuxXob'' then convert_integer c flags width precision args output
             else if c = CHR ''c'' then convert_char flags width args output
             else if c = CHR ''s'' then convert_string flags width precision args output
             else if c = CHR ''p'' then convert_pointer flags precision args output
             else if c = CHR ''%'' then map_option (Pair args) (putchar_via_gadget CHR ''%'' output)
             else if c = CHR ''n'' then convert_writeback flags args output
             else map_option (Pair args) (putchar_via_gadget c output)))"

text \<open>One round of the loop after a percent sign; \<open>return\<close> leaves nothing of the format.\<close>

definition conversion ::
  "char list \<Rightarrow> va list \<Rightarrow> 'e printf_state \<Rightarrow> (char list \<times> va list \<times> 'e printf_state) option"
  where
  "conversion format args output =
     (if format = [] then Some ([], args, output)
      else case parse_spec format args of
          Undef \<Rightarrow> None
        | Return \<Rightarrow> Some ([], args, output)
        | Next (flags, width, precision, format1, args1) \<Rightarrow>
            convert flags width precision format1 args1 output)"

lemma length_atou_loop: "atou_loop i f = (n, f') \<Longrightarrow> length f' \<le> length f"
  by (induction i f rule: atou_loop.induct) (auto split: if_splits)

lemma length_parse_flags: "parse_flags fl f = (fl', f') \<Longrightarrow> length f' \<le> length f"
  by (induction fl f rule: parse_flags.induct) (auto split: if_splits)

lemma length_advance: "advance_in_format_string f = Next f' \<Longrightarrow> length f' < length f"
  by (induction f rule: advance_in_format_string.induct) auto

lemma and_then_Next:
  "and_then x k = Next y \<longleftrightarrow> (\<exists>z. x = Next z \<and> k z = Next y)"
  by (cases x) auto

lemma length_parse_width:
  "parse_width fl f as = Next (fl', w, f', as') \<Longrightarrow> length f' \<le> length f"
  by (auto simp: parse_width_def atou_def and_then_Next
      dest!: length_atou_loop length_advance split: if_splits prod.splits)

lemma length_parse_precision:
  "parse_precision fl f as = Next (fl', w, f', as') \<Longrightarrow> length f' \<le> length f"
  by (auto simp: parse_precision_def atou_def and_then_Next
      dest!: length_atou_loop length_advance split: if_splits prod.splits)

lemma length_parse_length:
  "parse_length fl f = Next (fl', f') \<Longrightarrow> length f' \<le> length f"
  by (auto simp: parse_length_def and_then_Next dest!: length_advance split: if_splits)

lemma length_parse_spec:
  "parse_spec f as = Next (fl, w, p, f', as') \<Longrightarrow> length f' \<le> length f"
  by (fastforce simp: parse_spec_def and_then_Next split: prod.splits
      dest: length_parse_flags length_parse_width length_parse_precision length_parse_length)

lemma length_conversion:
  "conversion f as g = Some (f', as', g') \<Longrightarrow> length f' \<le> length f"
  by (auto simp: conversion_def convert_def
      split: if_splits stage.splits prod.splits list.splits dest!: length_parse_spec)

function format_string_loop ::
  "char list \<Rightarrow> va list \<Rightarrow> 'e printf_state \<Rightarrow> 'e printf_state option" where
  "format_string_loop format args output =
     (case format of
        [] \<Rightarrow> Some output
      | c # format1 \<Rightarrow>
          if c \<noteq> CHR ''%''
          then (case putchar_via_gadget c output of
                  None \<Rightarrow> None
                | Some output1 \<Rightarrow> format_string_loop format1 args output1)
          else (case conversion format1 args output of
                  None \<Rightarrow> None
                | Some (format2, args1, output1) \<Rightarrow> format_string_loop format2 args1 output1))"
  by pat_completeness auto
termination
  by (relation "measure (\<lambda>(f, as, g). length f)") (auto dest!: length_conversion)

declare format_string_loop.simps [simp del]

subsection \<open>Entry points\<close>

text \<open>The result is the return value, the gadget's extra argument and buffer at the end and the
  stores of the \<open>n\<close> conversions.\<close>

definition vsnprintf_impl ::
  "'e output_gadget \<Rightarrow> char list \<Rightarrow> va list
     \<Rightarrow> (u32 \<times> 'e \<times> char list option \<times> (u32 \<times> nat \<times> u32) list) option" where
  "vsnprintf_impl output format args =
     do {
       output1 \<leftarrow> format_string_loop format args (output_gadget.extend output \<lparr>written = []\<rparr>);
       output2 \<leftarrow> append_termination_with_gadget output1;
       Some (pos output2, extra_function_arg output2, buffer output2, written output2)
     }"

definition vprintf where
  "vprintf format args = vsnprintf_impl extern_putchar_gadget format args"

definition vsnprintf where
  "vsnprintf s n format args = vsnprintf_impl (buffer_gadget s n) format args"

definition vsprintf where
  "vsprintf s format args = vsnprintf s PRINTF_MAX_POSSIBLE_BUFFER_SIZE format args"

definition vfctprintf where
  "vfctprintf out extra_arg format args = vsnprintf_impl (function_gadget out extra_arg) format args"

definition printf where "printf format args = vprintf format args"
definition sprintf where "sprintf s format args = vsprintf s format args"
definition snprintf where "snprintf s n format args = vsnprintf s n format args"
definition fctprintf where "fctprintf out extra_arg format args = vfctprintf out extra_arg format args"

end
