(* ===== verification/Printf_Spec.thy ===== *)
theory Printf_Spec
  imports Printf
begin

text \<open>
  What the printf library promises: the text a format and its arguments denote, independent of
  where it goes, and the proof that the gadget code delivers exactly that text. The interface
  between the formatter and the gadget is the locale \<open>char_sink\<close>: a sink that accepts one character
  at a time, never fails while its invariant holds and counts what it was given.
\<close>

subsection \<open>The text of a conversion\<close>

definition out_rev_text :: "char list \<Rightarrow> u32 \<Rightarrow> u32 \<Rightarrow> char list" where
  "out_rev_text buf width flags =
     (if \<not> has_flag flags FLAGS_LEFT \<and> \<not> has_flag flags FLAGS_ZEROPAD
      then replicate (unat width - length buf) CHR '' '' else []) @
     rev buf @
     (if has_flag flags FLAGS_LEFT then replicate (unat width - length buf) CHR '' '' else [])"

definition int_text :: "u32 \<Rightarrow> bool \<Rightarrow> u8 \<Rightarrow> u32 \<Rightarrow> u32 \<Rightarrow> u32 \<Rightarrow> char list option" where
  "int_text value negative base precision width flags =
     do {
       (buf, flags1) \<leftarrow> integer_buf value base flags;
       (buf1, width1, flags2) \<leftarrow> finalize_buf buf negative base precision width flags1;
       Some (out_rev_text buf1 width1 flags2)
     }"

definition string_text :: "u32 \<Rightarrow> u32 \<Rightarrow> u32 \<Rightarrow> char list \<Rightarrow> char list" where
  "string_text flags width precision p =
     (let fill = replicate (unat width - unat (string_len flags precision p)) CHR '' '';
          body = (if has_flag flags FLAGS_PRECISION then take (unat precision) p else p)
      in if has_flag flags FLAGS_LEFT then body @ fill else fill @ body)"

text \<open>The text, the stores and the remaining arguments of one conversion; \<open>n\<close> is the number of
  characters before it.\<close>

definition convert_out ::
  "u32 \<Rightarrow> u32 \<Rightarrow> u32 \<Rightarrow> u32 \<Rightarrow> char list \<Rightarrow> va list
     \<Rightarrow> (char list \<times> va list \<times> char list \<times> (u32 \<times> nat \<times> u32) list) option" where
  "convert_out n flags width precision format args =
     (case format of
        [] \<Rightarrow> None
      | c # format1 \<Rightarrow>
          if c \<in> set ''diuxXob''
          then (case integer_request c flags args of
                  None \<Rightarrow> None
                | Some (args1, None) \<Rightarrow> Some (format1, args1, [], [])
                | Some (args1, Some (v, negative, base, flags1)) \<Rightarrow>
                    map_option (\<lambda>t. (format1, args1, t, []))
                      (int_text v negative base precision width flags1))
          else if c = CHR ''c''
          then (case va_arg_int args of
                  Next (w, args1) \<Rightarrow>
                    (let ch = char_of (unat (ucast w :: u8));
                         fill = replicate (unat width - 1) CHR '' ''
                     in Some (format1, args1,
                          if has_flag flags FLAGS_LEFT then ch # fill else fill @ [ch], []))
                | _ \<Rightarrow> None)
          else if c = CHR ''s''
          then (case args of
                  VStr None # args1 \<Rightarrow>
                    Some (format1, args1, out_rev_text '')llun('' width flags, [])
                | VStr (Some p) # args1 \<Rightarrow>
                    Some (format1, args1, string_text flags width precision p, [])
                | _ \<Rightarrow> None)
          else if c = CHR ''p''
          then (case args of
                  VPtr v # args1 \<Rightarrow>
                    (let flags1 = (flags OR FLAGS_ZEROPAD) OR FLAGS_POINTER
                     in map_option (\<lambda>t. (format1, args1, t, []))
                          (if v = 0 then Some (out_rev_text '')lin('' 10 flags1)
                           else int_text v False BASE_HEX precision 10 flags1))
                | _ \<Rightarrow> None)
          else if c = CHR ''n''
          then (case args of
                  VPtr a # args1 \<Rightarrow> Some (format1, args1, [], [writeback a flags n])
                | _ \<Rightarrow> None)
          else Some (format1, args, [c], []))"

definition conversion_out ::
  "u32 \<Rightarrow> char list \<Rightarrow> va list
     \<Rightarrow> (char list \<times> va list \<times> char list \<times> (u32 \<times> nat \<times> u32) list) option" where
  "conversion_out n format args =
     (if format = [] then Some ([], args, [], [])
      else case parse_spec format args of
          Undef \<Rightarrow> None
        | Return \<Rightarrow> Some ([], args, [], [])
        | Next (flags, width, precision, format1, args1) \<Rightarrow>
            convert_out n flags width precision format1 args1)"

lemma length_conversion_out:
  "conversion_out n f as = Some (f', as', t, ws) \<Longrightarrow> length f' \<le> length f"
  by (auto simp: conversion_out_def convert_out_def Let_def
      split: if_splits stage.splits prod.splits list.splits option.splits va.splits
      dest!: length_parse_spec)

text \<open>The text and the stores of a whole format.\<close>

function format_out ::
  "u32 \<Rightarrow> char list \<Rightarrow> va list \<Rightarrow> (char list \<times> (u32 \<times> nat \<times> u32) list) option" where
  "format_out n format args =
     (case format of
        [] \<Rightarrow> Some ([], [])
      | c # format1 \<Rightarrow>
          if c \<noteq> CHR ''%''
          then map_option (\<lambda>(t, ws). (c # t, ws)) (format_out (n + 1) format1 args)
          else (case conversion_out n format1 args of
                  None \<Rightarrow> None
                | Some (format2, args1, t, ws) \<Rightarrow>
                    map_option (\<lambda>(t', ws'). (t @ t', ws @ ws'))
                      (format_out (n + of_nat (length t)) format2 args1)))"
  by pat_completeness auto
termination
  by (relation "measure (\<lambda>(n, f, as). length f)") (auto dest!: length_conversion_out)

declare format_out.simps [simp del]

subsection \<open>Sinks\<close>

definition gadget_ok :: "('e, 'm) output_gadget_scheme \<Rightarrow> bool" where
  "gadget_ok g \<longleftrightarrow>
     gadget_function g \<noteq> None \<or> max_chars g = 0 \<or>
     (\<exists>b. buffer g = Some b \<and> unat (max_chars g) \<le> length b)"

locale char_sink =
  fixes put :: "char \<Rightarrow> 's \<Rightarrow> 's option"
    and ok :: "'s \<Rightarrow> bool"
    and count :: "'s \<Rightarrow> u32"
  assumes put_ok: "ok s \<Longrightarrow> \<exists>s'. put c s = Some s' \<and> ok s' \<and> count s' = count s + 1"
begin

definition emit :: "char list \<Rightarrow> 's \<Rightarrow> 's" where
  "emit cs s = fold (\<lambda>c s. the (put c s)) cs s"

lemma emit_Nil [simp]: "emit [] s = s"
  by (simp add: emit_def)

lemma emit_append: "emit (xs @ ys) s = emit ys (emit xs s)"
  by (simp add: emit_def)

lemma put_emit: "ok s \<Longrightarrow> put c s = Some (emit [c] s)"
  using put_ok [of s c] by (auto simp: emit_def)

lemma emit_Cons: "emit (c # cs) s = emit cs (emit [c] s)"
  by (simp add: emit_def)

lemma ok_emit [simp]: "ok s \<Longrightarrow> ok (emit cs s)"
proof (induction cs arbitrary: s)
  case (Cons c cs)
  have "ok (emit [c] s)"
    using put_ok [OF Cons.prems, of c] by (auto simp: emit_def)
  then show ?case
    using Cons.IH by (simp add: emit_Cons [of c cs])
qed simp

lemma count_emit: "ok s \<Longrightarrow> count (emit cs s) = count s + of_nat (length cs)"
proof (induction cs arbitrary: s)
  case (Cons c cs)
  have "ok (emit [c] s)" and "count (emit [c] s) = count s + 1"
    using put_ok [OF Cons.prems, of c] by (auto simp: emit_def)
  then show ?case
    using Cons.IH by (simp add: emit_Cons [of c cs] algebra_simps)
qed simp

lemma emit_snoc: "ok s \<Longrightarrow> put c (emit cs s) = Some (emit (cs @ [c]) s)"
  by (simp add: put_emit emit_append)

end

lemma putchar_gadget_ok:
  assumes "gadget_ok g"
  shows "\<exists>g'. putchar_via_gadget c g = Some g' \<and> gadget_ok g' \<and> pos g' = pos g + 1"
proof (cases "pos g < max_chars g \<and> gadget_function g = None")
  case True
  then have "max_chars g \<noteq> 0"
    by auto
  with True assms obtain b where b: "buffer g = Some b" "unat (max_chars g) \<le> length b"
    by (auto simp: gadget_ok_def)
  with True have "unat (pos g) < length b"
    by (auto simp: word_less_nat_alt)
  with True b show ?thesis
    by (auto simp: putchar_via_gadget_def gadget_ok_def Let_def)
next
  case False
  with assms show ?thesis
    by (auto simp: putchar_via_gadget_def gadget_ok_def Let_def split: option.splits)
qed

interpretation sink: char_sink putchar_via_gadget gadget_ok pos
  by unfold_locales (rule putchar_gadget_ok)

lemmas put_steps = sink.put_emit sink.emit_append [symmetric] sink.ok_emit

subsection \<open>Padding and reversal deliver their text\<close>

lemma pad_spaces_emit:
  "gadget_ok g \<Longrightarrow>
   pad_spaces i w g = Some (sink.emit (replicate (unat w - unat i) CHR '' '') g)"
proof (induction i w g rule: pad_spaces.induct)
  case (1 i w g)
  show ?case
  proof (cases "i < w")
    case True
    then have n: "unat w - unat i = Suc (unat w - unat (i + 1))"
      using unat_Suc_less [OF True] by (simp add: word_less_nat_alt)
    show ?thesis
      using "1.IH" [OF True, OF sink.put_emit] "1.prems" True
      by (subst pad_spaces.simps) (simp add: n sink.put_emit sink.emit_Cons [symmetric])
  next
    case False
    then have "unat w \<le> unat i"
      by (simp add: word_le_nat_alt not_less)
    with False show ?thesis
      by (subst pad_spaces.simps) simp
  qed
qed

lemma out_chars_down_emit:
  "gadget_ok g \<Longrightarrow> n \<le> length buf \<Longrightarrow>
   out_chars_down buf n g = Some (sink.emit (rev (take n buf)) g)"
proof (induction n arbitrary: g)
  case (Suc n)
  then show ?case
    by (simp add: sink.put_emit take_Suc_conv_app_nth sink.emit_Cons [symmetric])
qed simp

lemma pad_after_emit:
  "gadget_ok g \<Longrightarrow>
   pad_after s w g = Some (sink.emit (replicate (unat w - unat (pos g - s)) CHR '' '') g)"
proof (induction s w g rule: pad_after.induct)
  case (1 s w g)
  show ?case
  proof (cases "pos g - s < w")
    case True
    have p: "pos (sink.emit '' '' g) - s = (pos g - s) + 1"
      using "1.prems" by (simp add: sink.count_emit)
    then have n: "unat w - unat (pos g - s) = Suc (unat w - unat (pos (sink.emit '' '' g) - s))"
      using unat_Suc_less [OF True] True by (simp only: p) (simp add: word_less_nat_alt)
    show ?thesis
      using "1.IH" [OF True, OF sink.put_emit] "1.prems" True
      by (subst pad_after.simps) (simp add: n sink.put_emit sink.emit_Cons [symmetric])
  next
    case False
    then have "unat w \<le> unat (pos g - s)"
      by (simp add: word_le_nat_alt not_less)
    with False show ?thesis
      by (subst pad_after.simps) simp
  qed
qed

lemma out_rev_emit:
  assumes "gadget_ok g" and "length buf < 2 ^ 32"
  shows "out_rev g buf w f = Some (sink.emit (out_rev_text buf w f) g)"
proof -
  have len: "unat (of_nat (length buf) :: u32) = length buf"
    using assms(2) by (simp add: unat_of_nat)
  have after: "pos (sink.emit (rev buf) g) - pos g = of_nat (length buf)"
    using assms(1) by (simp add: sink.count_emit)
  show ?thesis
    using assms(1)
    by (simp add: out_rev_def out_rev_text_def pad_spaces_emit out_chars_down_emit pad_after_emit
        sink.emit_append len after)
qed

subsection \<open>The integer buffer never overflows\<close>

lemma buf_push_Some: "length buf < PRINTF_INTEGER_BUFFER_SIZE \<Longrightarrow> buf_push c buf = Some (buf @ [c])"
  by (simp add: buf_push_def)

lemma zero_fill_eq:
  "length buf \<le> PRINTF_INTEGER_BUFFER_SIZE \<Longrightarrow>
   zero_fill limit buf =
     Some (buf @ replicate (min (unat limit) PRINTF_INTEGER_BUFFER_SIZE - length buf) CHR ''0'')"
proof (induction limit buf rule: zero_fill.induct)
  case (1 limit buf)
  have small: "unat (of_nat (length buf) :: u32) = length buf"
    using "1.prems" by (simp add: unat_of_nat PRINTF_INTEGER_BUFFER_SIZE_def)
  show ?case
  proof (cases "of_nat (length buf) < limit \<and> length buf < PRINTF_INTEGER_BUFFER_SIZE")
    case True
    then have push: "buf_push CHR ''0'' buf = Some (buf @ ''0'')"
      by (simp add: buf_push_Some)
    have "length buf < unat limit"
      using True small by (simp add: word_less_nat_alt)
    then have n: "min (unat limit) PRINTF_INTEGER_BUFFER_SIZE - length buf =
        Suc (min (unat limit) PRINTF_INTEGER_BUFFER_SIZE - length (buf @ ''0''))"
      using True by (simp add: Suc_diff_Suc)
    have "zero_fill limit buf = zero_fill limit (buf @ ''0'')"
      using True by (subst zero_fill.simps) (simp add: push)
    also have "\<dots> = Some ((buf @ ''0'') @
        replicate (min (unat limit) PRINTF_INTEGER_BUFFER_SIZE - length (buf @ ''0'')) CHR ''0'')"
      by (rule "1.IH" [OF True push]) (use True in simp)
    finally show ?thesis
      by (simp only: n replicate_Suc append_assoc append_Cons append_Nil)
  next
    case False
    then have "min (unat limit) PRINTF_INTEGER_BUFFER_SIZE \<le> length buf"
      using small by (auto simp: word_less_nat_alt)
    with False show ?thesis
      by (subst zero_fill.simps) auto
  qed
qed

abbreviation fits :: "char list \<Rightarrow> bool" where
  "fits buf \<equiv> length buf \<le> PRINTF_INTEGER_BUFFER_SIZE"

lemma zero_fill_returns: "fits buf \<Longrightarrow> returns (zero_fill limit buf) fits"
  by (simp add: zero_fill_eq)

lemma push_prefix_returns: "fits buf \<Longrightarrow> returns (push_prefix base f buf) fits"
  by (auto simp: push_prefix_def buf_push_def)

lemma push_sign_returns: "fits buf \<Longrightarrow> returns (push_sign negative f buf) fits"
  by (auto simp: push_sign_def buf_push_def)

lemma fits_reclaim_padding: "fits buf \<Longrightarrow> fits (reclaim_padding base n buf)"
  by (auto simp: reclaim_padding_def Let_def)

lemma finalize_buf_returns:
  "fits buf \<Longrightarrow>
   returns (finalize_buf buf negative base precision w f) (\<lambda>(b, w', f'). fits b)"
  unfolding finalize_buf_def Let_def
  by (rule returns_bind [where P = fits] returns_if zero_fill_returns push_prefix_returns
      push_sign_returns | simp add: fits_reclaim_padding)+

lemma digits_loop_returns:
  "length buf < PRINTF_INTEGER_BUFFER_SIZE \<Longrightarrow> returns (digits_loop v base f buf) fits"
proof (induction v base f buf rule: digits_loop.induct)
  case (1 v base f buf)
  define b where "b = buf @ [digit_char f (v mod ucast base)]"
  have push: "buf_push (digit_char f (v mod ucast base)) buf = Some b"
    using "1.prems" by (simp add: buf_push_Some b_def)
  have "fits b"
    using "1.prems" by (simp add: b_def)
  then show ?case
    using "1.IH" [OF refl refl push] by (subst digits_loop.simps) (auto simp: push Let_def)
qed

lemma integer_buf_returns: "returns (integer_buf v base f) (\<lambda>(b, f'). fits b)"
  using digits_loop_returns [of "[]" v base f]
  by (auto simp: integer_buf_def buf_push_def returns_map PRINTF_INTEGER_BUFFER_SIZE_def)

lemma int_text_returns: "returns (int_text v negative base precision w f) (\<lambda>t. True)"
  unfolding int_text_def
  by (rule returns_bind [OF integer_buf_returns], clarsimp,
      rule returns_bind [OF finalize_buf_returns], auto)

lemma print_integer_emit:
  assumes "gadget_ok g"
  shows "print_integer g v negative base precision w f =
    map_option (\<lambda>t. sink.emit t g) (int_text v negative base precision w f)"
proof -
  obtain b f1 where b: "integer_buf v base f = Some (b, f1)" "fits b"
    using integer_buf_returns [of v base f] by (auto elim: returnsE)
  obtain b2 w2 f2 where
    b2: "finalize_buf b negative base precision w f1 = Some (b2, w2, f2)" "fits b2"
    using finalize_buf_returns [OF b(2), of negative base precision w f1] by (auto elim: returnsE)
  from b2(2) have "length b2 < 2 ^ 32"
    by (simp add: PRINTF_INTEGER_BUFFER_SIZE_def)
  with assms b b2 show ?thesis
    by (simp add: print_integer_def print_integer_finalization_def int_text_def out_rev_emit)
qed

subsection \<open>Conversions and the loop deliver their text\<close>

definition deliver :: "char list \<Rightarrow> (u32 \<times> nat \<times> u32) list \<Rightarrow> 'e printf_state \<Rightarrow> 'e printf_state"
  where
  "deliver t ws g = (sink.emit t g)\<lparr>written := written g @ ws\<rparr>"

lemma putchar_written:
  "putchar_via_gadget c (g\<lparr>written := x\<rparr>) = map_option (written_update (\<lambda>_. x)) (putchar_via_gadget c g)"
  for g :: "'e printf_state"
  by (auto simp: putchar_via_gadget_def Let_def split: option.splits)

lemma gadget_ok_written [simp]: "gadget_ok (g\<lparr>written := x\<rparr>) \<longleftrightarrow> gadget_ok g"
  for g :: "'e printf_state"
  by (simp add: gadget_ok_def)

lemma emit_written:
  "gadget_ok g \<Longrightarrow> sink.emit t (g\<lparr>written := x\<rparr>) = (sink.emit t g)\<lparr>written := x\<rparr>"
  for g :: "'e printf_state"
proof (induction t arbitrary: g)
  case (Cons c t)
  have "sink.emit [c] (g\<lparr>written := x\<rparr>) = (sink.emit [c] g)\<lparr>written := x\<rparr>"
    using sink.put_emit [of "g\<lparr>written := x\<rparr>" c] sink.put_emit [of g c] Cons.prems
    by (simp add: putchar_written)
  then show ?case
    using Cons by (simp add: sink.emit_Cons [of c t])
qed simp

lemma written_emit [simp]:
  fixes g :: "'e printf_state"
  assumes "gadget_ok g"
  shows "written (sink.emit t g) = written g"
proof -
  have "sink.emit t g = (sink.emit t g)\<lparr>written := written g\<rparr>"
    using emit_written [OF assms, of t "written g"] by simp
  then have "written (sink.emit t g) = written ((sink.emit t g)\<lparr>written := written g\<rparr>)"
    by (rule arg_cong)
  then show ?thesis by simp
qed

lemma putchar_extra:
  "gadget_function g = None \<Longrightarrow> putchar_via_gadget c g = Some g' \<Longrightarrow>
   extra_function_arg g' = extra_function_arg g \<and> gadget_function g' = None"
  by (auto simp: putchar_via_gadget_def Let_def split: if_splits option.splits)

lemma extra_emit:
  "gadget_ok g \<Longrightarrow> gadget_function g = None \<Longrightarrow>
   extra_function_arg (sink.emit t g) = extra_function_arg g"
proof (induction t arbitrary: g)
  case (Cons c t)
  then have "extra_function_arg (sink.emit [c] g) = extra_function_arg g"
    and "gadget_function (sink.emit [c] g) = None"
    using putchar_extra [OF _ sink.put_emit, of g c] by auto
  then show ?case
    using Cons by (simp add: sink.emit_Cons [of c t])
qed simp

lemma deliver_simps:
  assumes "gadget_ok g"
  shows "gadget_ok (deliver t ws g)"
    and "pos (deliver t ws g) = pos g + of_nat (length t)"
    and "deliver t' ws' (deliver t ws g) = deliver (t @ t') (ws @ ws') g"
    and "deliver t [] g = sink.emit t g"
  using assms by (simp_all add: deliver_def sink.count_emit emit_written sink.emit_append)

lemma put_string_emit:
  "gadget_ok g \<Longrightarrow> put_string f p s g =
     Some (sink.emit (if has_flag f FLAGS_PRECISION then take (unat p) s else s) g)"
proof (induction f p s g rule: put_string.induct)
  case (2 f p c s g)
  show ?case
  proof (cases "has_flag f FLAGS_PRECISION \<and> p = 0")
    case True
    then show ?thesis by simp
  next
    case False
    have "unat p = Suc (unat (p - 1))" if "p \<noteq> 0"
      using that by (metis Suc_pred' unat_gt_0 unat_minus_one)
    with False 2 show ?thesis
      by (auto simp: sink.put_emit sink.emit_Cons [symmetric] simp del: sink.emit_Cons)
  qed
qed simp

lemma option_bind_map: "map_option f x \<bind> k = x \<bind> (\<lambda>y. k (f y))"
  by (cases x) auto

lemma convert_string_emit:
  assumes "gadget_ok g"
  shows "convert_string f w p (VStr (Some s) # as) g =
    Some (as, sink.emit (string_text f w p s) g)"
  using assms
  by (simp add: convert_string_def string_text_def Let_def pad_spaces_emit put_string_emit
      sink.emit_append)

lemma convert_deliver:
  assumes "gadget_ok g"
  shows "convert f w p fmt as g =
    map_option (\<lambda>(fmt', as', t, ws). (fmt', as', deliver t ws g))
      (convert_out (pos g) f w p fmt as)"
proof (cases fmt)
  case Nil
  then show ?thesis by (simp add: convert_def convert_out_def)
next
  case (Cons c fmt')
  have nothing: "deliver [] [] g = g"
    using assms by (simp add: deliver_simps(4))
  consider (int) "c \<in> set ''diuxXob''" | (char) "c = CHR ''c''" | (str) "c = CHR ''s''"
    | (ptr) "c = CHR ''p''" | (wb) "c = CHR ''n''"
    | (other) "c \<notin> set ''diuxXob''" "c \<notin> set ''cspn''"
    by auto
  then show ?thesis
  proof cases
    case int
    then show ?thesis
      using assms nothing
      by (simp add: Cons convert_def convert_out_def convert_integer_def print_integer_emit
          deliver_simps(4) option.map_comp comp_def split: option.splits prod.splits)
  next
    case char
    then show ?thesis
      using assms
      by (simp add: Cons convert_def convert_out_def convert_char_def pad_spaces_emit Let_def
          deliver_simps(4) sink.put_emit sink.emit_append [symmetric] split: stage.splits)
  next
    case str
    then show ?thesis
      using assms
      by (simp add: Cons convert_def convert_out_def convert_string_emit deliver_simps(4)
          split: list.splits va.splits option.splits)
        (simp add: convert_string_def out_rev_emit)
  next
    case ptr
    then show ?thesis
      using assms
      by (simp add: Cons convert_def convert_out_def convert_pointer_def print_integer_emit
          deliver_simps(4) out_rev_emit Let_def option.map_comp comp_def
          split: list.splits va.splits)
  next
    case wb
    then show ?thesis
      by (simp add: Cons convert_def convert_out_def convert_writeback_def deliver_def
          split: list.splits va.splits)
  next
    case other
    then show ?thesis
      using assms
      by (simp add: Cons convert_def convert_out_def deliver_simps(4) sink.put_emit)
  qed
qed

lemma conversion_deliver:
  assumes "gadget_ok g"
  shows "conversion fmt as g =
    map_option (\<lambda>(fmt', as', t, ws). (fmt', as', deliver t ws g)) (conversion_out (pos g) fmt as)"
  using assms
  by (simp add: conversion_def conversion_out_def convert_deliver deliver_simps(4)
      split: stage.splits)

lemma format_string_loop_deliver:
  "gadget_ok g \<Longrightarrow>
   format_string_loop fmt as g =
     map_option (\<lambda>(t, ws). deliver t ws g) (format_out (pos g) fmt as)"
proof (induction fmt as g rule: format_string_loop.induct)
  case (1 fmt as g)
  show ?case
  proof (cases fmt)
    case Nil
    then show ?thesis
      using "1.prems"
      by (simp add: format_string_loop.simps format_out.simps deliver_simps(4))
  next
    case (Cons c fmt')
    show ?thesis
    proof (cases "c = CHR ''%''")
      case False
      have put: "putchar_via_gadget c g = Some (deliver [c] [] g)"
        using "1.prems" by (simp add: sink.put_emit deliver_simps(4))
      show ?thesis
        using "1.IH"(1) [OF Cons False put] "1.prems" False
        by (subst format_string_loop.simps, subst format_out.simps)
          (simp add: Cons put deliver_simps(1-3) option.map_comp comp_def split_beta)
    next
      case True
      show ?thesis
      proof (cases "conversion_out (pos g) fmt' as")
        case None
        then show ?thesis
          using "1.prems" True
          by (subst format_string_loop.simps, subst format_out.simps)
            (simp add: Cons conversion_deliver)
      next
        case (Some r)
        obtain fmt2 as2 t ws where r: "r = (fmt2, as2, t, ws)"
          by (cases r)
        have conv: "conversion fmt' as g = Some (fmt2, as2, deliver t ws g)"
          using "1.prems" Some r by (simp add: conversion_deliver)
        show ?thesis
          using "1.IH"(2) [OF Cons _ conv refl refl] "1.prems" True Some r
          by (subst format_string_loop.simps, subst format_out.simps)
            (simp add: Cons conv deliver_simps(1-3) option.map_comp comp_def split_beta)
      qed
    qed
  qed
qed

subsection \<open>What ends up in the buffer\<close>

lemma store_after_prefix:
  assumes "length t < length b"
  shows "(t @ drop (length t) b)[length t := c] = (t @ [c]) @ drop (Suc (length t)) b"
  using Cons_nth_drop_Suc [OF assms] by (metis append.assoc append_Cons append_Nil
      list_update_length)

lemma emit_buffer:
  assumes "gadget_function g = None" and "buffer g = Some b" and "unat (max_chars g) \<le> length b"
    and "pos g = 0" and "length t < 2 ^ 32"
  shows "gadget_function (sink.emit t g) = None \<and> max_chars (sink.emit t g) = max_chars g \<and>
    buffer (sink.emit t g) =
      Some (take (unat (max_chars g)) t @ drop (min (length t) (unat (max_chars g))) b)"
  using assms(5)
proof (induction t rule: rev_induct)
  case Nil
  then show ?case using assms by simp
next
  case (snoc c t)
  define h where "h = sink.emit t g"
  have ok: "gadget_ok g"
    using assms by (auto simp: gadget_ok_def)
  have IH: "gadget_function h = None" "max_chars h = max_chars g"
    "buffer h = Some (take (unat (max_chars g)) t @ drop (min (length t) (unat (max_chars g))) b)"
    using snoc by (simp_all add: h_def)
  have ph: "unat (pos h) = length t"
    using ok assms(4) snoc.prems by (simp add: h_def sink.count_emit unat_of_nat)
  have step: "putchar_via_gadget c h = Some (sink.emit (t @ [c]) g)"
    using ok by (simp add: h_def sink.emit_snoc)
  show ?case
  proof (cases "length t < unat (max_chars g)")
    case True
    then have "\<not> max_chars h \<le> pos h"
      using ph IH(2) by (simp add: word_le_nat_alt)
    then have "Some (sink.emit (t @ [c]) g) =
        Some (h\<lparr>pos := pos h + 1, buffer := Some ((t @ drop (length t) b)[length t := c])\<rparr>)"
      using step [symmetric] IH ph True assms(3)
      by (simp add: putchar_via_gadget_def Let_def)
    then show ?thesis
      using IH True assms(3)
      by (simp add: store_after_prefix)
  next
    case False
    then have "max_chars h \<le> pos h"
      using ph IH(2) by (simp add: word_le_nat_alt)
    then have "Some (sink.emit (t @ [c]) g) = Some (h\<lparr>pos := pos h + 1\<rparr>)"
      using step [symmetric] by (simp add: putchar_via_gadget_def Let_def)
    then show ?thesis
      using IH False by simp
  qed
qed

lemma termination_buffer:
  assumes "gadget_function g = None" and "max_chars g \<noteq> 0" and "buffer g = Some b"
    and "unat (max_chars g) \<le> length b"
  shows "append_termination_with_gadget g =
    Some (g\<lparr>buffer := Some (b[min (unat (pos g)) (unat (max_chars g) - 1) := NUL])\<rparr>)"
proof -
  have m: "unat (max_chars g - 1) = unat (max_chars g) - 1" "0 < unat (max_chars g)"
    using assms(2) by (simp_all add: unat_minus_one unat_gt_0)
  show ?thesis
    using assms m
    by (auto simp: append_termination_with_gadget_def Let_def word_less_nat_alt min_def)
qed

lemma store_nul:
  assumes "m = Suc k" and "m \<le> length b"
  shows "(take m t @ drop (min (length t) m) b)[min (length t) k := c] =
    take k t @ c # drop (Suc (min k (length t))) b"
proof (cases "length t \<le> k")
  case True
  then show ?thesis
    using store_after_prefix [of t b c] assms by (simp add: min_def)
next
  case False
  then have "take m t = take k t @ [t ! k]"
    using assms by (simp add: take_Suc_conv_app_nth)
  then show ?thesis
    using False assms by (simp add: list_update_append)
qed

lemma vsnprintf_impl_buffer:
  assumes "0 < m" and "unat m \<le> length b"
    and "format_out 0 fmt as = Some (t, ws)" and "length t < 2 ^ 32"
  shows "vsnprintf_impl \<lparr>gadget_function = None, extra_function_arg = e, buffer = Some b, pos = 0,
      max_chars = m\<rparr> fmt as =
    Some (of_nat (length t), e,
      Some (take (unat m - 1) t @ NUL # drop (Suc (min (unat m - 1) (length t))) b), ws)"
proof -
  define g where "g = output_gadget.extend \<lparr>gadget_function = None, extra_function_arg = e,
    buffer = Some b, pos = 0, max_chars = m\<rparr> \<lparr>written = []\<rparr>"
  have g: "gadget_function g = None" "buffer g = Some b" "unat (max_chars g) \<le> length b"
    "pos g = 0" "max_chars g = m" "extra_function_arg g = e" "written g = []"
    using assms(2) by (simp_all add: g_def output_gadget.defs)
  then have ok: "gadget_ok g"
    by (auto simp: gadget_ok_def)
  define h where "h = deliver t ws g"
  have loop: "format_string_loop fmt as g = Some h"
    using ok assms(3) g by (simp add: format_string_loop_deliver h_def)
  have h: "gadget_function h = None" "max_chars h = m" "pos h = of_nat (length t)"
    "buffer h = Some (take (unat m) t @ drop (min (length t) (unat m)) b)" "written h = ws"
    "extra_function_arg h = e"
    using emit_buffer [OF g(1-4) assms(4)] ok g
    by (simp_all add: h_def deliver_def sink.count_emit extra_emit)
  have m: "m \<noteq> 0" "unat m = Suc (unat m - 1)"
    using assms(1) by (auto simp: unat_gt_0)
  have "append_termination_with_gadget h =
      Some (h\<lparr>buffer := Some ((take (unat m) t @ drop (min (length t) (unat m)) b)
        [min (length t) (unat m - 1) := NUL])\<rparr>)"
    using termination_buffer [OF h(1) _ h(4)] h m assms(2,4) by (simp add: unat_of_nat)
  then show ?thesis
    using store_nul [OF m(2) assms(2), of t NUL] loop h
    by (simp add: vsnprintf_impl_def g_def [symmetric])
qed

lemma buffer_gadget_eq:
  "n \<le> PRINTF_MAX_POSSIBLE_BUFFER_SIZE \<Longrightarrow>
   buffer_gadget (Some b) n = \<lparr>gadget_function = None, extra_function_arg = (),
      buffer = Some b, pos = 0, max_chars = n\<rparr>"
  by (auto simp: buffer_gadget_def discarding_gadget_def dest: leD)

lemma vsnprintf_text:
  assumes "format_out 0 fmt args = Some (t, ws)" and "length t < 2 ^ 32"
    and "0 < n" and "n \<le> PRINTF_MAX_POSSIBLE_BUFFER_SIZE" and "unat n \<le> length b"
  shows "vsnprintf (Some b) n fmt args =
    Some (of_nat (length t), (),
      Some (take (unat n - 1) t @ NUL # drop (Suc (min (unat n - 1) (length t))) b), ws)"
  using assms by (simp add: vsnprintf_def buffer_gadget_eq vsnprintf_impl_buffer)

lemma vsnprintf_undefined:
  assumes "format_out 0 fmt args = None"
    and "n \<le> PRINTF_MAX_POSSIBLE_BUFFER_SIZE" and "unat n \<le> length b"
  shows "vsnprintf (Some b) n fmt args = None"
proof -
  define g where "g = output_gadget.extend (buffer_gadget (Some b) n) \<lparr>written = []\<rparr>"
  have "gadget_ok g" and "pos g = 0"
    using assms by (simp_all add: g_def buffer_gadget_eq gadget_ok_def output_gadget.defs)
  with assms have "format_string_loop fmt args g = None"
    by (simp add: format_string_loop_deliver)
  then show ?thesis
    by (simp add: vsnprintf_def vsnprintf_impl_def g_def)
qed

end
