(* ===== verification/Printf_Decimal.thy ===== *)
theory Printf_Decimal
  imports Printf_Spec
begin

text \<open>
  Decimal notation as the printf library writes and reads it, the text of the conversions the
  firmware uses, and the properties of the library: contents of the buffer, safety of the integer
  formatter, the round trip through the library's own reader, and the early end of a format.
\<close>

subsection \<open>Positional notation\<close>

text \<open>Digits, least significant first, and decimal notation as text.\<close>

function digits_lsb :: "nat \<Rightarrow> nat \<Rightarrow> nat list" where
  "digits_lsb b n = (if b < 2 \<or> n < b then [n] else n mod b # digits_lsb b (n div b))"
  by pat_completeness auto
termination
  by (relation "measure snd") (auto intro: div_less_dividend)

declare digits_lsb.simps [simp del]

definition dec :: "nat \<Rightarrow> char list" where
  "dec n = rev (map (\<lambda>d. char_of (48 + d)) (digits_lsb 10 n))"

subsection \<open>Decimal numbers\<close>

lemma digits_lsb_nonempty [simp]: "digits_lsb b n \<noteq> []"
  by (subst digits_lsb.simps) simp

lemma length_digits_lsb:
  "2 \<le> b \<Longrightarrow> n < b ^ Suc k \<Longrightarrow> length (digits_lsb b n) \<le> Suc k"
proof (induction k arbitrary: n)
  case 0
  then show ?case by (subst digits_lsb.simps) simp
next
  case (Suc k)
  then have "n div b < b ^ Suc k"
    by (simp add: less_mult_imp_div_less mult.commute)
  with Suc show ?case
    by (subst digits_lsb.simps) simp
qed

lemma unat_ucast_u8: "unat (ucast w :: u32) = unat w" for w :: u8
proof -
  have "unat w < 2 ^ 8"
    using unsigned_less [of w] by simp
  then show ?thesis
    by (simp add: unsigned_ucast_eq take_bit_nat_eq_self)
qed

lemma digits_loop_eq:
  "2 \<le> base \<Longrightarrow> v \<noteq> 0 \<Longrightarrow>
    length buf + length (digits_lsb (unat base) (unat v)) \<le> PRINTF_INTEGER_BUFFER_SIZE \<Longrightarrow>
    digits_loop v base f buf =
      Some (buf @ map (\<lambda>d. digit_char f (of_nat d)) (digits_lsb (unat base) (unat v)))"
proof (induction v base f buf rule: digits_loop.induct)
  case (1 v base f buf)
  define B where "B = (ucast base :: u32)"
  have B: "unat B = unat base" "2 \<le> unat base"
    using "1.prems"(1) by (simp_all add: B_def word_le_nat_alt unat_ucast_u8)
  have md: "v mod B = of_nat (unat v mod unat base)" and dv: "unat (v div B) = unat v div unat base"
    by (simp_all add: B(1) [symmetric] unat_mod [symmetric] unat_div)
  define b where "b = buf @ [digit_char f (v mod B)]"
  have room: "length buf < PRINTF_INTEGER_BUFFER_SIZE"
    using "1.prems"(3) by (simp add: digits_lsb.simps [of "unat base" "unat v"] split: if_splits)
  then have push: "buf_push (digit_char f (v mod B)) buf = Some b"
    by (simp add: buf_push_Some b_def)
  show ?case
  proof (cases "unat v < unat base")
    case True
    then have "v div B = 0" and "digits_lsb (unat base) (unat v) = [unat v]"
      using dv by (simp_all add: unat_eq_zero digits_lsb.simps [of "unat base" "unat v"])
    with True room show ?thesis
      by (subst digits_loop.simps) (simp add: B_def [symmetric] buf_push_Some md Let_def)
  next
    case False
    then have ne: "v div B \<noteq> 0"
      using dv B(2) by (metis div_eq_0_iff not_numeral_le_zero unat_0)
    have ds: "digits_lsb (unat base) (unat v) =
        (unat v mod unat base) # digits_lsb (unat base) (unat (v div B))"
      using False B(2) by (subst digits_lsb.simps) (simp add: dv)
    have len: "length b + length (digits_lsb (unat base) (unat (v div B)))
        \<le> PRINTF_INTEGER_BUFFER_SIZE"
      using "1.prems"(3) by (simp add: ds b_def)
    then have "length b < PRINTF_INTEGER_BUFFER_SIZE"
      by (metis digits_lsb_nonempty add_leE length_greater_0_conv less_add_same_cancel1 less_le_trans)
    then show ?thesis
      using "1.IH" [OF refl refl push [unfolded B_def]] ne "1.prems"(1) len
      by (subst digits_loop.simps) (simp add: B_def [symmetric] push ds Let_def, simp add: b_def md)
  qed
qed

lemma foldl_digits:
  "foldl (\<lambda>i d. i * 10 + of_nat d) (0 :: u32) (rev (digits_lsb 10 n)) = of_nat n"
proof (induction "10 :: nat" n rule: digits_lsb.induct)
  case (1 n)
  show ?case
  proof (cases "n < 10")
    case True
    then show ?thesis by (subst digits_lsb.simps) simp
  next
    case False
    have "of_nat n = of_nat (n div 10) * 10 + (of_nat (n mod 10) :: u32)"
      by (metis div_mult_mod_eq of_nat_add of_nat_mult of_nat_numeral)
    with 1 False show ?thesis
      by (subst digits_lsb.simps) simp
  qed
qed

lemma digits_lsb_less: "2 \<le> b \<Longrightarrow> d \<in> set (digits_lsb b n) \<Longrightarrow> d < b"
proof (induction b n rule: digits_lsb.induct)
  case (1 b n)
  from "1.prems"(2) show ?case
    using 1 by (subst (asm) digits_lsb.simps) (auto split: if_splits)
qed

lemma of_char_digit: "d < 10 \<Longrightarrow> of_char (char_of (48 + d)) = (48 + of_nat d :: 'a::len word)"
proof -
  assume "d < 10"
  then have "of_char (char_of (48 + d)) = 48 + d"
    by simp
  then show ?thesis
    by (metis of_nat_add of_nat_numeral of_nat_of_char)
qed

lemma atou_loop_digits:
  assumes "\<forall>d \<in> set ds. d < 10" and "rest = [] \<or> \<not> is_digit (hd rest)"
  shows "atou_loop i (map (\<lambda>d. char_of (48 + d)) ds @ rest) =
    (foldl (\<lambda>i d. i * 10 + of_nat d) i ds, rest)"
  using assms(1)
proof (induction ds arbitrary: i)
  case Nil
  then show ?case using assms(2) by (cases rest) auto
next
  case (Cons d ds)
  then have "is_digit (char_of (48 + d))"
    by (simp add: is_digit_def)
  with Cons show ?case
    by (simp add: of_char_digit)
qed

lemma atou_dec:
  "rest = [] \<or> \<not> is_digit (hd rest) \<Longrightarrow> atou (dec n @ rest) = (of_nat n, rest)"
  using atou_loop_digits [of "rev (digits_lsb 10 n)" rest 0] digits_lsb_less [of 10 _ n]
  by (simp add: atou_def dec_def rev_map foldl_digits)

lemma length_dec: "n < 10 ^ Suc k \<Longrightarrow> length (dec n) \<le> Suc k"
  by (simp add: dec_def length_digits_lsb)

lemma dec_nonempty [simp]: "dec n \<noteq> []"
  by (simp add: dec_def)

lemma length_dec_u32: "length (dec (unat v)) \<le> 10" for v :: u32
proof -
  have "unat v < 2 ^ 32"
    using unsigned_less [of v] by simp
  then show ?thesis
    using length_dec [of "unat v" 9] by simp
qed

lemma char_of_48: "char_of (48 :: nat) = CHR ''0''"
  by code_simp

lemma integer_buf_dec:
  assumes "\<not> has_flag f FLAGS_PRECISION"
  shows "integer_buf v BASE_DECIMAL f =
    Some (rev (dec (unat v)), if v = 0 then drop_hash f else f)"
proof (cases "v = 0")
  case True
  then show ?thesis
    using assms
    by (simp add: integer_buf_def buf_push_Some PRINTF_INTEGER_BUFFER_SIZE_def dec_def
        digits_lsb.simps char_of_48)
next
  case False
  have "digits_loop v BASE_DECIMAL f [] =
      Some ([] @ map (\<lambda>d. digit_char f (of_nat d)) (digits_lsb (unat BASE_DECIMAL) (unat v)))"
    using False length_dec_u32 [of v]
    by (intro digits_loop_eq) (simp_all add: base_defs PRINTF_INTEGER_BUFFER_SIZE_def dec_def)
  moreover have "map (\<lambda>d. digit_char f (of_nat d)) (digits_lsb 10 (unat v)) =
      map (\<lambda>d. char_of (48 + d)) (digits_lsb 10 (unat v))"
  proof (rule map_cong [OF refl])
    fix d assume "d \<in> set (digits_lsb 10 (unat v))"
    then have "d < 10"
      using digits_lsb_less by simp
    then show "digit_char f (of_nat d) = char_of (48 + d)"
      by (simp add: digit_char_def word_less_nat_alt unat_of_nat)
  qed
  ultimately show ?thesis
    using False by (simp add: integer_buf_def dec_def base_defs)
qed

lemma drop_hash_id:
  assumes "\<not> has_flag f FLAGS_HASH"
  shows "drop_hash f = f"
proof -
  have "f = f AND (FLAGS_HASH OR NOT FLAGS_HASH)"
    by simp
  also have "\<dots> = f AND NOT FLAGS_HASH"
    using assms by (simp only: bit.conj_disj_distrib has_flag_def) simp
  finally show ?thesis
    by (simp add: drop_hash_def)
qed

text \<open>An unsigned decimal number in a field.\<close>

lemma int_text_dec:
  assumes "\<not> has_flag f FLAGS_PRECISION" "\<not> has_flag f FLAGS_HASH" "\<not> has_flag f FLAGS_POINTER"
    "\<not> has_flag f FLAGS_PLUS" "\<not> has_flag f FLAGS_SPACE" "\<not> has_flag f FLAGS_LEFT"
    and "unat w \<le> PRINTF_INTEGER_BUFFER_SIZE"
  shows "int_text v False BASE_DECIMAL 0 w f =
    Some (replicate (unat w - length (dec (unat v)))
      (if has_flag f FLAGS_ZEROPAD then CHR ''0'' else CHR '' '') @ dec (unat v))"
proof -
  define d where "d = dec (unat v)"
  have fits: "fits d"
    using length_dec_u32 [of v] by (simp add: PRINTF_INTEGER_BUFFER_SIZE_def d_def)
  have buf: "integer_buf v BASE_DECIMAL f = Some (rev d, f)"
    using assms by (simp add: integer_buf_dec drop_hash_id d_def)
  have push: "push_sign False f b = Some b" for b
    using assms by (simp add: push_sign_def)
  have base: "BASE_DECIMAL \<noteq> BASE_OCTAL"
    by (simp add: base_defs)
  show ?thesis
    using assms fits
    by (simp add: int_text_def buf finalize_buf_def Let_def zero_fill_eq
        has_flag_or push base out_rev_text_def min_def d_def [symmetric])
qed

lemmas parse_defs = parse_spec_def parse_width_def parse_precision_def parse_length_def peek_def
  is_digit_def atou_def

lemma format_out_lit:
  "c \<noteq> CHR ''%'' \<Longrightarrow>
   format_out n (c # fmt) as = map_option (\<lambda>(t, ws). (c # t, ws)) (format_out (n + 1) fmt as)"
  by (subst format_out.simps) simp

lemma format_out_Nil: "format_out n [] as = Some ([], [])"
  by (subst format_out.simps) simp

lemma format_out_conv:
  "conversion_out n fmt as = Some (fmt', as', t, []) \<Longrightarrow>
   format_out n (CHR ''%'' # fmt) as =
     map_option (\<lambda>(t', ws'). (t @ t', ws')) (format_out (n + of_nat (length t)) fmt' as')"
  by (subst format_out.simps) simp

text \<open>The conversions the firmware uses.\<close>

lemma conversion_out_u:
  "conversion_out n (CHR ''u'' # fmt) (VInt v # as) = Some (fmt, as, dec (unat v), [])"
proof -
  have "int_text v False BASE_DECIMAL 0 0 0 = Some (dec (unat v))"
    by (subst int_text_dec) (simp_all add: has_flag_def)
  then show ?thesis
    by (simp add: conversion_out_def convert_out_def parse_defs integer_request_def drop_hash_def
        has_flag_def base_defs Let_def)
qed

lemma conversion_out_03u:
  "conversion_out n (''03u'' @ fmt) (VInt v # as) =
     Some (fmt, as, replicate (3 - length (dec (unat v))) CHR ''0'' @ dec (unat v), [])"
proof -
  have "int_text v False BASE_DECIMAL 0 3 1 =
      Some (replicate (3 - length (dec (unat v))) CHR ''0'' @ dec (unat v))"
    by (subst int_text_dec) (simp_all add: has_flag_def flag_defs PRINTF_INTEGER_BUFFER_SIZE_def)
  then show ?thesis
    by (simp add: conversion_out_def convert_out_def parse_defs integer_request_def drop_hash_def
        has_flag_def base_defs flag_defs Let_def)
qed

lemma conversion_out_06u:
  "conversion_out n (''06u'' @ fmt) (VInt v # as) =
     Some (fmt, as, replicate (6 - length (dec (unat v))) CHR ''0'' @ dec (unat v), [])"
proof -
  have "int_text v False BASE_DECIMAL 0 6 1 =
      Some (replicate (6 - length (dec (unat v))) CHR ''0'' @ dec (unat v))"
    by (subst int_text_dec) (simp_all add: has_flag_def flag_defs PRINTF_INTEGER_BUFFER_SIZE_def)
  then show ?thesis
    by (simp add: conversion_out_def convert_out_def parse_defs integer_request_def drop_hash_def
        has_flag_def base_defs flag_defs Let_def)
qed

lemma conversion_out_d:
  assumes "0 <s v"
  shows "conversion_out n (CHR ''d'' # fmt) (VInt v # as) = Some (fmt, as, dec (unat v), [])"
proof -
  have "int_text v False BASE_DECIMAL 0 0 FLAGS_SIGNED = Some (dec (unat v))"
    by (subst int_text_dec) (simp_all add: has_flag_def flag_defs)
  moreover have "\<not> v <s 0"
    using assms by (simp add: word_sless_alt)
  ultimately show ?thesis
    using assms
    by (simp add: conversion_out_def convert_out_def parse_defs integer_request_def drop_hash_def
        has_flag_def base_defs flag_defs Let_def ABS_FOR_PRINTING_def)
qed

lemma conversion_out_s:
  "conversion_out n (CHR ''s'' # fmt) (VStr (Some p) # as) = Some (fmt, as, p, [])"
  by (simp add: conversion_out_def convert_out_def parse_defs string_text_def has_flag_def Let_def)

subsection \<open>Properties\<close>

text \<open>C4. Formatting into a buffer of at least \<open>n\<close> bytes, \<open>n\<close> positive, stores the text of the
  format cut to \<open>n - 1\<close> characters and a NUL, touches no byte after that NUL, and returns the length
  of the whole text; the call is undefined exactly when the format and its arguments denote no
  text.\<close>

theorem vsnprintf_contents:
  assumes "0 < n" and "n \<le> PRINTF_MAX_POSSIBLE_BUFFER_SIZE" and "unat n \<le> length b"
    and "\<And>t ws. format_out 0 fmt args = Some (t, ws) \<Longrightarrow> length t < 2 ^ 32"
  shows "vsnprintf (Some b) n fmt args =
    (case format_out 0 fmt args of
       None \<Rightarrow> None
     | Some (t, ws) \<Rightarrow>
         Some (of_nat (length t), (),
           Some (take (unat n - 1) t @ NUL # drop (Suc (min (unat n - 1) (length t))) b), ws))"
proof (cases "format_out 0 fmt args")
  case None
  with assms show ?thesis
    by (simp add: vsnprintf_undefined)
next
  case (Some r)
  then show ?thesis
    using assms by (cases r) (simp add: vsnprintf_text)
qed

theorem vsnprintf_contents_witness:
  "vsnprintf (Some ''????????'') 4 ''a%sb'' [VStr (Some ''xyz'')] =
     Some (5, (), Some (''axy'' @ NUL # ''????''), [])"
proof -
  have out: "format_out 0 ''a%sb'' [VStr (Some ''xyz'')] = Some (''axyzb'', [])"
    by (simp add: format_out_lit format_out_conv [OF conversion_out_s] format_out_Nil)
  have "vsnprintf (Some ''????????'') 4 ''a%sb'' [VStr (Some ''xyz'')] =
    (case format_out 0 ''a%sb'' [VStr (Some ''xyz'')] of
       None \<Rightarrow> None
     | Some (t, ws) \<Rightarrow>
         Some (of_nat (length t), (),
           Some (take (unat (4 :: u32) - 1) t @
             NUL # drop (Suc (min (unat (4 :: u32) - 1) (length t))) ''????????''), ws))"
    by (rule vsnprintf_contents) (simp_all add: out PRINTF_MAX_POSSIBLE_BUFFER_SIZE_def)
  then show ?thesis
    by (simp add: out)
qed

text \<open>C5. Formatting an integer in any of the four bases, with any precision, width and flags,
  never stores outside the 32 characters of the local buffer nor outside the gadget's buffer.\<close>

theorem print_integer_safe:
  assumes "gadget_ok g" and "base \<in> {BASE_BINARY, BASE_OCTAL, BASE_DECIMAL, BASE_HEX}"
  shows "returns (print_integer g v negative base precision w f) gadget_ok"
  using assms(1) int_text_returns [of v negative base precision w f]
  by (auto simp: print_integer_emit returns_map elim!: returnsE)

theorem print_integer_safe_witness:
  "returns (print_integer (buffer_gadget (Some ''?????'') 5) 0xffffffff True BASE_BINARY 40 50
     FLAGS_ZEROPAD) gadget_ok"
  by (rule print_integer_safe) (simp_all add: gadget_ok_def buffer_gadget_def discarding_gadget_def
      PRINTF_MAX_POSSIBLE_BUFFER_SIZE_def)

text \<open>C6. Printing any unsigned 32-bit number into eleven bytes and reading it back with the
  library's own reader gives the number again.\<close>

theorem print_read_roundtrip:
  assumes "11 \<le> length b"
  shows "\<exists>b'. snprintf (Some b) 11 ''%u'' [VInt v] =
      Some (of_nat (length (dec (unat v))), (), Some b', []) \<and> fst (atou b') = v"
proof -
  have out: "format_out 0 ''%u'' [VInt v] = Some (dec (unat v), [])"
    by (simp add: format_out_conv [OF conversion_out_u] format_out_Nil)
  have len: "length (dec (unat v)) \<le> 10"
    by (rule length_dec_u32)
  have nul: "\<not> is_digit NUL"
    by (simp add: is_digit_def NUL_def)
  have "snprintf (Some b) 11 ''%u'' [VInt v] = Some (of_nat (length (dec (unat v))), (),
      Some (dec (unat v) @ NUL # drop (Suc (length (dec (unat v)))) b), [])"
    using assms len
    by (simp add: snprintf_def vsnprintf_text [OF out] PRINTF_MAX_POSSIBLE_BUFFER_SIZE_def min_def)
  with nul show ?thesis
    by (simp add: atou_dec)
qed

theorem print_read_roundtrip_witness:
  "\<exists>b'. snprintf (Some (replicate 12 CHR ''?'')) 11 ''%u'' [VInt 4294967295] =
      Some (of_nat (length (dec (unat (4294967295 :: u32)))), (), Some b', [])
      \<and> fst (atou b') = 4294967295"
  by (rule print_read_roundtrip) simp

lemma parse_flags_digits:
  "list_all is_digit ds \<Longrightarrow> \<exists>f' ds'. parse_flags f ds = (f', ds') \<and> list_all is_digit ds'"
  by (induction f ds rule: parse_flags.induct) (auto simp: is_digit_def)

lemma atou_loop_all_digits: "list_all is_digit ds \<Longrightarrow> \<exists>n. atou_loop i ds = (n, [])"
  by (induction ds arbitrary: i) auto

text \<open>C16. A format that ends inside a width, such as a percent sign and digits, is not caught by
  the check for an early end: the loop runs past the terminating NUL, whatever the buffer and the
  arguments.\<close>

theorem format_end_in_width_undefined:
  assumes "list_all is_digit ds" and "ds \<noteq> []"
  shows "vsnprintf s n (CHR ''%'' # ds) args = None"
proof -
  obtain f' ds' where flags: "parse_flags 0 ds = (f', ds')" and ds': "list_all is_digit ds'"
    using parse_flags_digits [OF assms(1)] by blast
  obtain m where m: "atou_loop 0 ds' = (m, [])"
    using atou_loop_all_digits [OF ds'] by blast
  have nul: "\<not> is_digit NUL" "NUL \<notin> set ''*.lhtzj''"
    by (simp_all add: is_digit_def NUL_def)
  have "\<exists>f w. parse_width f' ds' args = Next (f, w, [], args)"
    using ds' nul m
    by (cases ds') (auto simp: parse_width_def peek_def atou_def)
  then have "\<exists>f w. parse_spec ds args = Next (f, w, 0, [], args)"
    using nul by (auto simp: parse_spec_def flags parse_precision_def parse_length_def peek_def)
  then have "conversion ds args g = None" for g :: "unit printf_state"
    using assms(2) by (auto simp: conversion_def convert_def)
  then show ?thesis
    by (simp add: vsnprintf_def vsnprintf_impl_def format_string_loop.simps)
qed

theorem format_end_in_width_undefined_witness:
  "vsnprintf (Some (replicate 8 NUL)) 8 ''%5'' [VInt 1] = None"
  using format_end_in_width_undefined [of "''5''"] by (simp add: is_digit_def)

end
