(* ===== verification/Soft_Float.thy ===== *)
theory Soft_Float
  imports Complex_Main
begin

text \<open>
  Binary floating point as the compiler's software routines provide it: a value is a rational, an
  operation is the exact one rounded to nearest, ties to even, with 24 significant bits for float and
  53 for double. Overflow and underflow of the exponent do not occur in the values the modelled code
  computes and are not represented.
\<close>

subsection \<open>Rounding\<close>

function ilog2 :: "int \<Rightarrow> nat" where
  "ilog2 n = (if n \<le> 1 then 0 else Suc (ilog2 (n div 2)))"
  by pat_completeness auto
termination
  by (relation "measure nat") auto

declare ilog2.simps [simp del]

definition floor_log2 :: "rat \<Rightarrow> int" where
  "floor_log2 x =
     (if 1 \<le> x then int (ilog2 \<lfloor>x\<rfloor>) else - int (Suc (ilog2 (\<lceil>1 / x\<rceil> - 1))))"

definition pow2 :: "int \<Rightarrow> rat" where
  "pow2 e = (if 0 \<le> e then 2 ^ nat e else 1 / 2 ^ nat (- e))"

definition round_half_even :: "rat \<Rightarrow> int" where
  "round_half_even x =
     (let f = \<lfloor>x\<rfloor>; d = x - of_int f
      in if d < 1 / 2 then f else if d > 1 / 2 then f + 1 else if even f then f else f + 1)"

definition round_pos :: "nat \<Rightarrow> rat \<Rightarrow> rat" where
  "round_pos p x = (let u = pow2 (floor_log2 x - int p + 1) in of_int (round_half_even (x / u)) * u)"

definition round_float :: "nat \<Rightarrow> rat \<Rightarrow> rat" where
  "round_float p x = (if x = 0 then 0 else if x < 0 then - round_pos p (- x) else round_pos p x)"

definition to_float :: "rat \<Rightarrow> rat" where
  "to_float x = round_float 24 x"

definition to_double :: "rat \<Rightarrow> rat" where
  "to_double x = round_float 53 x"

subsection \<open>Laws\<close>

lemma ilog2_bounds: "1 \<le> n \<Longrightarrow> 2 ^ ilog2 n \<le> n \<and> n < 2 ^ Suc (ilog2 n)"
proof (induction n rule: ilog2.induct)
  case (1 n)
  show ?case
  proof (cases "n = 1")
    case True
    then show ?thesis
      by (simp add: ilog2.simps)
  next
    case False
    then have "2 ^ ilog2 (n div 2) \<le> n div 2 \<and> n div 2 < 2 ^ Suc (ilog2 (n div 2))"
      using 1 by auto
    moreover have "ilog2 n = Suc (ilog2 (n div 2))"
      using 1(2) False by (subst ilog2.simps) simp
    moreover define k where "k = (2 :: int) ^ ilog2 (n div 2)"
    ultimately have "k \<le> n div 2" "n div 2 < 2 * k" "2 ^ ilog2 n = 2 * k"
      by simp_all
    moreover have "2 * (n div 2) \<le> n" "n < 2 * (n div 2) + 2"
      by linarith+
    ultimately show ?thesis
      by simp
  qed
qed

lemma power_le_of_int: "2 ^ k \<le> n \<Longrightarrow> 2 ^ k \<le> (of_int n :: rat)"
  by (metis of_int_le_iff of_int_numeral of_int_power)

lemma of_int_le_power: "n \<le> 2 ^ k \<Longrightarrow> (of_int n :: rat) \<le> 2 ^ k"
  by (metis of_int_le_iff of_int_numeral of_int_power)

lemma pow2_powi: "pow2 e = 2 powi e"
  by (simp add: pow2_def power_int_def inverse_eq_divide power_one_over)

lemma pow2_pos [simp]: "0 < pow2 e"
  by (simp add: pow2_def)

lemma pow2_add: "pow2 (a + b) = pow2 a * pow2 b"
  unfolding pow2_powi by (rule power_int_add) simp

lemma pow2_nat: "pow2 (int n) = 2 ^ n"
  by (simp add: pow2_def)

lemma pow2_neg: "pow2 (- int n) = 1 / 2 ^ n"
  by (simp add: pow2_def)

lemma pow2_mono: "a \<le> b \<Longrightarrow> pow2 a \<le> pow2 b"
  by (simp add: pow2_powi power_int_increasing)

lemma floor_log2_bounds:
  assumes "0 < x"
  shows "pow2 (floor_log2 x) \<le> x" "x < pow2 (floor_log2 x + 1)"
proof -
  have "pow2 (floor_log2 x) \<le> x \<and> x < pow2 (floor_log2 x + 1)"
  proof (cases "1 \<le> x")
    case True
    define n where "n = \<lfloor>x\<rfloor>"
    have "1 \<le> n"
      using True by (simp add: n_def le_floor_iff)
    then have b: "2 ^ ilog2 n \<le> n" "n + 1 \<le> 2 ^ Suc (ilog2 n)"
      using ilog2_bounds [of n] by auto
    note rb = power_le_of_int [OF b(1)] of_int_le_power [OF b(2)]
    have "of_int n \<le> x" "x < of_int (n + 1)"
      using floor_correct [of x] by (simp_all add: n_def)
    then have "2 ^ ilog2 n \<le> x" "x < 2 ^ Suc (ilog2 n)"
      using rb by (metis order_trans, metis less_le_trans)
    then have "pow2 (int (ilog2 n)) \<le> x" "x < pow2 (int (Suc (ilog2 n)))"
      by (simp_all only: pow2_nat)
    moreover have "floor_log2 x = int (ilog2 n)"
      using True by (simp add: floor_log2_def n_def)
    ultimately show ?thesis
      by (simp add: add.commute)
  next
    case False
    define y where "y = 1 / x"
    define n where "n = \<lceil>y\<rceil> - 1"
    have y: "1 < y"
      using False assms by (simp add: y_def)
    have "1 \<le> n"
      using y by (simp add: n_def less_ceiling_iff)
    then have b: "2 ^ ilog2 n \<le> n" "n + 1 \<le> 2 ^ Suc (ilog2 n)"
      using ilog2_bounds [of n] by auto
    note rb = power_le_of_int [OF b(1)] of_int_le_power [OF b(2)]
    have "of_int n < y" "y \<le> of_int (n + 1)"
      using ceiling_correct [of y] by (simp_all add: n_def)
    then have "2 ^ ilog2 n < y" "y \<le> 2 ^ Suc (ilog2 n)"
      using rb by (metis le_less_trans, metis order_trans)
    then have "1 / 2 ^ Suc (ilog2 n) \<le> 1 / y" "1 / y < 1 / 2 ^ ilog2 n"
      using y by (simp_all add: divide_left_mono divide_strict_left_mono)
    then have "pow2 (- int (Suc (ilog2 n))) \<le> x" "x < pow2 (- int (ilog2 n))"
      by (simp_all only: pow2_neg y_def) simp_all
    moreover have "floor_log2 x = - int (Suc (ilog2 n))"
      using False by (simp only: floor_log2_def n_def y_def if_False)
    ultimately show ?thesis
      by simp
  qed
  then show "pow2 (floor_log2 x) \<le> x" "x < pow2 (floor_log2 x + 1)"
    by auto
qed

lemma round_half_even_int [simp]: "round_half_even (of_int n) = n"
  by (simp add: round_half_even_def)

lemma round_half_even_floor: "\<lfloor>x\<rfloor> \<le> round_half_even x" "round_half_even x \<le> \<lfloor>x\<rfloor> + 1"
  by (simp_all add: round_half_even_def Let_def)

lemma round_half_even_mono:
  assumes "x \<le> y"
  shows "round_half_even x \<le> round_half_even y"
proof (cases "\<lfloor>x\<rfloor> = \<lfloor>y\<rfloor>")
  case True
  then have "x - of_int \<lfloor>x\<rfloor> \<le> y - of_int \<lfloor>y\<rfloor>"
    using assms by simp
  then show ?thesis
    using True unfolding round_half_even_def Let_def by simp
next
  case False
  then have "\<lfloor>x\<rfloor> + 1 \<le> \<lfloor>y\<rfloor>"
    using floor_mono [OF assms] by simp
  then show ?thesis
    using round_half_even_floor(2) [of x] round_half_even_floor(1) [of y] by linarith
qed

lemma round_half_even_error: "\<bar>of_int (round_half_even x) - x\<bar> \<le> 1 / 2"
proof -
  define f where "f = \<lfloor>x\<rfloor>"
  have "of_int f \<le> x" "x < of_int f + 1"
    using floor_correct [of x] by (simp_all add: f_def)
  then show ?thesis
    unfolding round_half_even_def Let_def f_def [symmetric] by (auto simp: abs_le_iff field_simps)
qed

lemma round_pos_scaled:
  assumes "0 < x" "0 < p"
  defines "u \<equiv> pow2 (floor_log2 x - int p + 1)"
  shows "2 ^ (p - 1) \<le> round_half_even (x / u)" "round_half_even (x / u) \<le> 2 ^ p"
    "u * 2 ^ (p - 1) = pow2 (floor_log2 x)" "u * 2 ^ p = pow2 (floor_log2 x + 1)"
proof -
  have "floor_log2 x = (floor_log2 x - int p + 1) + int (p - 1)"
    using assms(2) by simp
  then show u: "u * 2 ^ (p - 1) = pow2 (floor_log2 x)"
    unfolding u_def pow2_nat [symmetric] pow2_add [symmetric] by simp
  have "floor_log2 x + 1 = (floor_log2 x - int p + 1) + int p"
    by simp
  then show v: "u * 2 ^ p = pow2 (floor_log2 x + 1)"
    unfolding u_def pow2_nat [symmetric] pow2_add [symmetric] by simp
  have "0 < u"
    by (simp add: u_def)
  then have "of_int (2 ^ (p - 1)) \<le> x / u" "x / u \<le> of_int (2 ^ p)"
    using floor_log2_bounds [OF assms(1)] unfolding u [symmetric] v [symmetric]
    by (simp_all add: field_simps)
  then show "2 ^ (p - 1) \<le> round_half_even (x / u)" "round_half_even (x / u) \<le> 2 ^ p"
    by (metis round_half_even_int round_half_even_mono)+
qed

lemma round_pos_bounds:
  assumes "0 < x" "0 < p"
  shows "pow2 (floor_log2 x) \<le> round_pos p x" "round_pos p x \<le> pow2 (floor_log2 x + 1)"
proof -
  define u where "u = pow2 (floor_log2 x - int p + 1)"
  note b = round_pos_scaled [OF assms, folded u_def]
  have "0 < u"
    by (simp add: u_def)
  then have "2 ^ (p - 1) * u \<le> of_int (round_half_even (x / u)) * u"
    "of_int (round_half_even (x / u)) * u \<le> 2 ^ p * u"
    using power_le_of_int [OF b(1)] of_int_le_power [OF b(2)] by (simp_all add: mult_right_mono)
  then show "pow2 (floor_log2 x) \<le> round_pos p x" "round_pos p x \<le> pow2 (floor_log2 x + 1)"
    unfolding b(3,4) [symmetric] round_pos_def u_def [symmetric] Let_def by (simp_all add: mult.commute)
qed

lemma floor_log2_mono:
  assumes "0 < x" "x \<le> y"
  shows "floor_log2 x \<le> floor_log2 y"
proof (rule ccontr)
  assume "\<not> floor_log2 x \<le> floor_log2 y"
  then have "pow2 (floor_log2 y + 1) \<le> pow2 (floor_log2 x)"
    by (intro pow2_mono) simp
  then show False
    using floor_log2_bounds(1) [OF assms(1)] floor_log2_bounds(2) [of y] assms by linarith
qed

lemma round_pos_mono:
  assumes "0 < x" "x \<le> y" "0 < p"
  shows "round_pos p x \<le> round_pos p y"
proof (cases "floor_log2 x = floor_log2 y")
  case True
  define u where "u = pow2 (floor_log2 y - int p + 1)"
  have "0 < u"
    by (simp add: u_def)
  then have "round_half_even (x / u) \<le> round_half_even (y / u)"
    using assms by (intro round_half_even_mono) (simp add: divide_right_mono)
  then show ?thesis
    using \<open>0 < u\<close> by (simp add: round_pos_def Let_def True u_def [symmetric] mult_right_mono)
next
  case False
  then have "floor_log2 x + 1 \<le> floor_log2 y"
    using floor_log2_mono [OF assms(1,2)] by simp
  then have "pow2 (floor_log2 x + 1) \<le> pow2 (floor_log2 y)"
    by (rule pow2_mono)
  then show ?thesis
    using round_pos_bounds(2) [OF assms(1,3)] round_pos_bounds(1) [of y p] assms by linarith
qed

lemma round_pos_error:
  assumes "0 < x" "0 < p"
  shows "\<bar>round_pos p x - x\<bar> \<le> x / 2 ^ p"
proof -
  define u where "u = pow2 (floor_log2 x - int p + 1)"
  have u: "0 < u" "u * 2 ^ (p - 1) = pow2 (floor_log2 x)"
    using round_pos_scaled(3) [OF assms] by (simp_all add: u_def)
  have "round_pos p x = of_int (round_half_even (x / u)) * u"
    by (simp add: round_pos_def u_def Let_def)
  then have "round_pos p x - x = (of_int (round_half_even (x / u)) - x / u) * u"
    using u(1) by (simp add: left_diff_distrib)
  then have "\<bar>round_pos p x - x\<bar> = \<bar>of_int (round_half_even (x / u)) - x / u\<bar> * u"
    using u(1) by (simp add: abs_mult)
  also have "\<dots> \<le> 1 / 2 * u"
    using u(1) by (intro mult_right_mono round_half_even_error) simp
  also have "\<dots> = pow2 (floor_log2 x) / 2 ^ p"
    unfolding u(2) [symmetric] using assms(2) by (cases p) simp_all
  also have "\<dots> \<le> x / 2 ^ p"
    using floor_log2_bounds(1) [OF assms(1)] by (simp add: divide_right_mono)
  finally show ?thesis .
qed

lemma round_pos_int:
  assumes "0 < n" "n \<le> 2 ^ p" "0 < p"
  shows "round_pos p (of_int n) = of_int n"
proof -
  define e where "e = floor_log2 (of_int n)"
  define u where "u = pow2 (e - int p + 1)"
  have b: "pow2 e \<le> of_int n" "of_int n < pow2 (e + 1)"
    using floor_log2_bounds [of "of_int n"] assms(1) by (simp_all add: e_def)
  have "\<exists>k. of_int n / u = of_int k"
  proof (cases "e < int p")
    case True
    then have "u = pow2 (- int (nat (int p - 1 - e)))"
      by (simp add: u_def algebra_simps)
    then have "of_int n / u = of_int (n * 2 ^ nat (int p - 1 - e))"
      by (simp only: pow2_neg) simp
    then show ?thesis
      by blast
  next
    case False
    then have "pow2 (int p) \<le> pow2 e"
      by (intro pow2_mono) simp
    then have "of_int n = (2 :: rat) ^ p" 
      using b(1) of_int_le_power [OF assms(2)] by (simp only: pow2_nat)
    moreover have "e = int p"
    proof (rule antisym)
      show "e \<le> int p"
      proof (rule ccontr)
        assume "\<not> e \<le> int p"
        then have "pow2 (int (Suc p)) \<le> pow2 e"
          by (intro pow2_mono) simp
        then have "(2 :: rat) ^ Suc p \<le> 2 ^ p"
          using b(1) \<open>of_int n = 2 ^ p\<close> by (simp only: pow2_nat)
        then show False
          by simp
      qed
    qed (use False in simp)
    ultimately have "of_int n / u = (of_int (2 ^ (p - 1)) :: rat)"
      using assms(3) by (cases p) (simp_all add: u_def pow2_def)
    then show ?thesis
      by blast
  qed
  then obtain k where k: "of_int n / u = of_int k"
    by blast
  moreover have "0 < u"
    by (simp add: u_def)
  ultimately have n: "of_int n = of_int k * u"
    by (simp add: field_simps)
  have "round_pos p (of_int n) = of_int (round_half_even (of_int n / u)) * u"
    by (simp add: round_pos_def u_def e_def Let_def)
  also have "\<dots> = of_int k * u"
    by (simp only: k round_half_even_int)
  finally show ?thesis
    by (simp only: n)
qed

lemma round_pos_nonneg: "0 < x \<Longrightarrow> 0 < p \<Longrightarrow> 0 < round_pos p x"
  by (meson less_le_trans pow2_pos round_pos_bounds(1))

lemma round_float_mono:
  assumes "0 < p" "x \<le> y"
  shows "round_float p x \<le> round_float p y"
proof (cases "0 < x \<or> y < 0")
  case True
  then show ?thesis
    using assms round_pos_mono [of x y p] round_pos_mono [of "- y" "- x" p] by (auto simp: round_float_def)
next
  case False
  have "round_float p x \<le> 0"
    using False assms round_pos_nonneg [of "- x" p] by (auto simp: round_float_def)
  moreover have "0 \<le> round_float p y"
    using False assms round_pos_nonneg [of y p] by (auto simp: round_float_def)
  ultimately show ?thesis
    by linarith
qed

lemma round_float_int:
  assumes "0 < p" "\<bar>n\<bar> \<le> 2 ^ p"
  shows "round_float p (of_int n) = of_int n"
  using round_pos_int [of n p] round_pos_int [of "- n" p] assms by (auto simp: round_float_def)

lemma round_float_error:
  assumes "0 < p"
  shows "\<bar>round_float p x - x\<bar> \<le> \<bar>x\<bar> / 2 ^ p"
  using round_pos_error [of x p] round_pos_error [of "- x" p] assms
  by (auto simp: round_float_def abs_minus_commute)

text \<open>What the video code relies on: rounding keeps the order, keeps the integers that fit the
  significand, and is close.\<close>

locale float_rounding =
  fixes rnd :: "rat \<Rightarrow> rat" and p :: nat
  assumes bits: "24 \<le> p"
    and mono_law: "x \<le> y \<Longrightarrow> rnd x \<le> rnd y"
    and int_law: "\<bar>n\<bar> \<le> 2 ^ p \<Longrightarrow> rnd (of_int n) = of_int n"
    and error_law: "\<bar>rnd x - x\<bar> \<le> \<bar>x\<bar> / 2 ^ p"
begin

lemma small_int: "\<bar>n\<bar> \<le> 16777216 \<Longrightarrow> rnd (of_int n) = of_int n"
proof (rule int_law)
  assume "\<bar>n\<bar> \<le> 16777216"
  also have "(16777216 :: int) = 2 ^ 24"
    by simp
  also have "\<dots> \<le> 2 ^ p"
    using bits by (intro power_increasing) auto
  finally show "\<bar>n\<bar> \<le> 2 ^ p" .
qed

lemma rnd_numeral: "(numeral k :: int) \<le> 16777216 \<Longrightarrow> rnd (numeral k) = numeral k"
  using small_int [of "numeral k"] by simp

lemma rnd_zero [simp]: "rnd 0 = 0"
  using small_int [of 0] by simp

lemma rnd_ge_int: "\<bar>n\<bar> \<le> 16777216 \<Longrightarrow> of_int n \<le> x \<Longrightarrow> of_int n \<le> rnd x"
  using mono_law [of "of_int n" x] small_int [of n] by simp

lemma rnd_le_int: "\<bar>n\<bar> \<le> 16777216 \<Longrightarrow> x \<le> of_int n \<Longrightarrow> rnd x \<le> of_int n"
  using mono_law [of x "of_int n"] small_int [of n] by simp

lemma rnd_nonneg: "0 \<le> x \<Longrightarrow> 0 \<le> rnd x"
  using rnd_ge_int [of 0 x] by simp

lemma rnd_error:
  assumes "0 \<le> x"
  shows "\<bar>rnd x - x\<bar> \<le> x / 16777216"
proof -
  have "(16777216 :: rat) = 2 ^ 24"
    by simp
  also have "\<dots> \<le> 2 ^ p"
    using bits by (intro power_increasing) auto
  finally have "x / 2 ^ p \<le> x / 16777216"
    using assms by (intro divide_left_mono) auto
  then show ?thesis
    using error_law [of x] assms by (metis abs_of_nonneg order_trans)
qed

lemma rnd_near:
  assumes "0 \<le> x"
  shows "x * (16777215 / 16777216) \<le> rnd x" "rnd x \<le> x * (16777217 / 16777216)"
proof -
  have "rnd x - x \<le> x / 16777216" "x - rnd x \<le> x / 16777216"
    using rnd_error [OF assms] by (simp_all only: abs_le_iff minus_diff_eq)
  then show "x * (16777215 / 16777216) \<le> rnd x" "rnd x \<le> x * (16777217 / 16777216)"
    by (simp_all add: field_simps)
qed

lemma rnd_ge_near:
  assumes "0 \<le> a" "a \<le> x" "b \<le> a * (16777215 / 16777216)"
  shows "b \<le> rnd x"
proof -
  have "a * (16777215 / 16777216) \<le> x * (16777215 / 16777216)"
    using assms(2) by (intro mult_right_mono) auto
  then show ?thesis
    using rnd_near(1) [of x] assms by linarith
qed

lemma rnd_le_near:
  assumes "0 \<le> x" "x \<le> a" "a * (16777217 / 16777216) \<le> b"
  shows "rnd x \<le> b"
proof -
  have "x * (16777217 / 16777216) \<le> a * (16777217 / 16777216)"
    using assms(2) by (intro mult_right_mono) auto
  then show ?thesis
    using rnd_near(2) [of x] assms by linarith
qed

end

interpretation single: float_rounding to_float 24
  unfolding to_float_def
  by unfold_locales (simp, (rule round_float_mono round_float_int round_float_error; simp)+)

interpretation double: float_rounding to_double 53
  unfolding to_double_def
  by unfold_locales (simp, (rule round_float_mono round_float_int round_float_error; simp)+)

end
