(* ===== verification/Printf_Float.thy ===== *)
theory Printf_Float
  imports Printf_Decimal Soft_Float
begin

text \<open>
  The fixed point conversion of the printf library (get_components to print_floating_point in printf.c)
  for a build with the decimal specifiers switched on and the exponential ones off. The Makefile
  switches both off, so the firmware does not contain it; it is part of the library's source. A finite
  double is its sign bit and its magnitude, a rational rounded as in Soft_Float.
\<close>

subsection \<open>Values\<close>

text \<open>A double: its sign bit and its magnitude, or one of the special values.\<close>

datatype double_value = NaN | Infinity bool | Finite bool rat

record double_components =
  integral :: int
  fractional :: int
  is_negative :: bool

definition PRINTF_DECIMAL_BUFFER_SIZE :: nat where "PRINTF_DECIMAL_BUFFER_SIZE = 32"
definition PRINTF_DEFAULT_FLOAT_PRECISION :: u32 where "PRINTF_DEFAULT_FLOAT_PRECISION = 6"
definition PRINTF_FLOAT_NOTATION_THRESHOLD :: rat where "PRINTF_FLOAT_NOTATION_THRESHOLD = 1000000000"
definition NUM_DECIMAL_DIGITS_IN_INT64_T :: nat where "NUM_DECIMAL_DIGITS_IN_INT64_T = 18"
definition PRINTF_MAX_SUPPORTED_PRECISION :: u32 where "PRINTF_MAX_SUPPORTED_PRECISION = 17"

text \<open>The powers of ten up to this one are doubles.\<close>

definition powers_of_10 :: "rat list" where
  "powers_of_10 = map (\<lambda>k. 10 ^ k) [0..<NUM_DECIMAL_DIGITS_IN_INT64_T]"

text \<open>The conversion of a non-negative double to int64_t, undefined out of range.\<close>

definition to_int64 :: "rat \<Rightarrow> int option" where
  "to_int64 x = (if \<lfloor>x\<rfloor> < 2 ^ 63 then Some \<lfloor>x\<rfloor> else None)"

subsection \<open>Decimal digits of a double\<close>

text \<open>The rounding of the last digit: the integral part and the fraction.\<close>

definition round_fraction :: "int \<Rightarrow> int \<Rightarrow> rat \<Rightarrow> rat \<Rightarrow> int \<times> int" where
  "round_fraction i f remainder p10 =
     (if remainder > 1 / 2
      then (if to_double (of_int (f + 1)) \<ge> p10 then (i + 1, 0) else (i, f + 1))
      else if remainder = 1 / 2 \<and> (f = 0 \<or> odd f) then (i, f + 1)
      else (i, f))"

definition get_components :: "bool \<Rightarrow> rat \<Rightarrow> u32 \<Rightarrow> double_components option" where
  "get_components negative abs_number precision =
     do {
       i \<leftarrow> to_int64 abs_number;
       p10 \<leftarrow> (if unat precision < length powers_of_10 then Some (powers_of_10 ! unat precision) else None);
       let remainder = to_double (to_double (abs_number - to_double (of_int i)) * p10);
       f \<leftarrow> to_int64 remainder;
       let remainder = to_double (remainder - to_double (of_int f));
       let (i, f) = round_fraction i f remainder p10;
       let i =
         (if precision = 0
          then (let remainder = to_double (abs_number - to_double (of_int i))
                in if (\<not> remainder < 1 / 2 \<or> remainder > 1 / 2) \<and> odd i then i + 1 else i)
          else i);
       Some \<lparr>integral = i, fractional = f, is_negative = negative\<rparr>
     }"

text \<open>The local array has as many elements as that of the integer formatter, so a store into it is the
  same \<^const>\<open>buf_push\<close>, which is undefined when the array is full.\<close>

text \<open>The loop that drops the zeros at the end for the adaptive conversion; the digits are not all zero.\<close>

function strip_zeros :: "u32 \<Rightarrow> int \<Rightarrow> u32 \<times> int" where
  "strip_zeros count f = (if f mod 10 \<noteq> 0 \<or> f \<le> 0 then (count, f) else strip_zeros (count - 1) (f div 10))"
  by pat_completeness auto
termination
  by (relation "measure (\<lambda>(c, f). nat f)") auto

function fraction_loop :: "u32 \<Rightarrow> int \<Rightarrow> char list \<Rightarrow> (u32 \<times> char list) option" where
  "fraction_loop count f buf =
     (if length buf < PRINTF_DECIMAL_BUFFER_SIZE
      then do {
        buf1 \<leftarrow> buf_push (char_of (48 + nat (f mod 10))) buf;
        if f div 10 = 0 then Some (count - 1, buf1) else fraction_loop (count - 1) (f div 10) buf1
      }
      else Some (count, buf))"
  by pat_completeness auto
termination
  by (relation "measure (\<lambda>(c, f, buf). PRINTF_DECIMAL_BUFFER_SIZE - length buf)")
    (auto simp: buf_push_def split: if_splits)

function extra_zeros :: "u32 \<Rightarrow> char list \<Rightarrow> char list option" where
  "extra_zeros count buf =
     (if length buf < PRINTF_DECIMAL_BUFFER_SIZE \<and> count > 0
      then do { buf1 \<leftarrow> buf_push CHR ''0'' buf; extra_zeros (count - 1) buf1 }
      else Some buf)"
  by pat_completeness auto
termination
  by (relation "measure (\<lambda>(c, buf). PRINTF_DECIMAL_BUFFER_SIZE - length buf)")
    (auto simp: buf_push_def split: if_splits)

function integral_loop :: "int \<Rightarrow> char list \<Rightarrow> char list option" where
  "integral_loop i buf =
     (if length buf < PRINTF_DECIMAL_BUFFER_SIZE
      then do {
        buf1 \<leftarrow> buf_push (char_of (48 + nat (i mod 10))) buf;
        if i div 10 = 0 then Some buf1 else integral_loop (i div 10) buf1
      }
      else Some buf)"
  by pat_completeness auto
termination
  by (relation "measure (\<lambda>(i, buf). PRINTF_DECIMAL_BUFFER_SIZE - length buf)")
    (auto simp: buf_push_def split: if_splits)

declare strip_zeros.simps [simp del] fraction_loop.simps [simp del] extra_zeros.simps [simp del]
  integral_loop.simps [simp del]

definition push_point :: "char list \<Rightarrow> char list option" where
  "push_point buf = (if length buf < PRINTF_DECIMAL_BUFFER_SIZE then buf_push CHR ''.'' buf else Some buf)"

definition fraction_buf :: "int \<Rightarrow> u32 \<Rightarrow> u32 \<Rightarrow> char list \<Rightarrow> char list option" where
  "fraction_buf f precision flags buf =
     (if precision \<noteq> 0
      then do {
        let (count, f) =
          (if has_flag flags FLAGS_ADAPT_EXP \<and> \<not> has_flag flags FLAGS_HASH \<and> f > 0
           then strip_zeros precision f else (precision, f));
        if f > 0 \<or> \<not> has_flag flags FLAGS_ADAPT_EXP \<or> has_flag flags FLAGS_HASH
        then do {
          (count, buf) \<leftarrow> fraction_loop count f buf;
          buf \<leftarrow> extra_zeros count buf;
          push_point buf
        }
        else Some buf
      }
      else if has_flag flags FLAGS_HASH then push_point buf
      else Some buf)"

text \<open>The buffer and the width that print_broken_up_decimal hands to out_rev.\<close>

definition decimal_buf ::
  "double_components \<Rightarrow> u32 \<Rightarrow> u32 \<Rightarrow> u32 \<Rightarrow> char list \<Rightarrow> (char list \<times> u32) option" where
  "decimal_buf number precision width flags buf =
     do {
       buf \<leftarrow> fraction_buf (fractional number) precision flags buf;
       buf \<leftarrow> integral_loop (integral number) buf;
       let pad = (\<not> has_flag flags FLAGS_LEFT \<and> has_flag flags FLAGS_ZEROPAD);
       let width =
         (if pad \<and> width \<noteq> 0 \<and> (is_negative number \<or> has_flag flags (FLAGS_PLUS OR FLAGS_SPACE))
          then width - 1 else width);
       buf \<leftarrow> (if pad then zero_fill width buf else Some buf);
       buf \<leftarrow> push_sign (is_negative number) flags buf;
       Some (buf, width)
     }"

definition print_broken_up_decimal ::
  "double_components \<Rightarrow> ('e, 'm) output_gadget_scheme \<Rightarrow> u32 \<Rightarrow> u32 \<Rightarrow> u32 \<Rightarrow> char list
     \<Rightarrow> ('e, 'm) output_gadget_scheme option" where
  "print_broken_up_decimal number output precision width flags buf =
     do {
       (buf, width) \<leftarrow> decimal_buf number precision width flags buf;
       out_rev output buf width flags
     }"

definition print_decimal_number ::
  "('e, 'm) output_gadget_scheme \<Rightarrow> bool \<Rightarrow> rat \<Rightarrow> u32 \<Rightarrow> u32 \<Rightarrow> u32 \<Rightarrow> char list
     \<Rightarrow> ('e, 'm) output_gadget_scheme option" where
  "print_decimal_number output negative abs_number precision width flags buf =
     do {
       value \<leftarrow> get_components negative abs_number precision;
       print_broken_up_decimal value output precision width flags buf
     }"

text \<open>The loop that limits the precision.\<close>

function limit_precision :: "u32 \<Rightarrow> char list \<Rightarrow> (u32 \<times> char list) option" where
  "limit_precision precision buf =
     (if length buf < PRINTF_DECIMAL_BUFFER_SIZE \<and> precision > PRINTF_MAX_SUPPORTED_PRECISION
      then do { buf1 \<leftarrow> buf_push CHR ''0'' buf; limit_precision (precision - 1) buf1 }
      else Some (precision, buf))"
  by pat_completeness auto
termination
  by (relation "measure (\<lambda>(p, buf). PRINTF_DECIMAL_BUFFER_SIZE - length buf)")
    (auto simp: buf_push_def split: if_splits)

declare limit_precision.simps [simp del]

definition print_floating_point ::
  "('e, 'm) output_gadget_scheme \<Rightarrow> double_value \<Rightarrow> u32 \<Rightarrow> u32 \<Rightarrow> u32
     \<Rightarrow> ('e, 'm) output_gadget_scheme option" where
  "print_floating_point output value precision width flags =
     (case value of
        NaN \<Rightarrow> out_rev output ''nan'' width flags
      | Infinity True \<Rightarrow> out_rev output ''fni-'' width flags
      | Infinity False \<Rightarrow> out_rev output (if has_flag flags FLAGS_PLUS then ''fni+'' else ''fni'') width flags
      | Finite negative m \<Rightarrow>
          if m > PRINTF_FLOAT_NOTATION_THRESHOLD then Some output
          else do {
            let precision = (if \<not> has_flag flags FLAGS_PRECISION then PRINTF_DEFAULT_FLOAT_PRECISION else precision);
            (precision, buf) \<leftarrow> limit_precision precision [];
            print_decimal_number output negative m precision width flags buf
          })"

subsection \<open>The buffer\<close>

lemma decimal_size [simp]: "PRINTF_DECIMAL_BUFFER_SIZE = PRINTF_INTEGER_BUFFER_SIZE"
  by (simp add: PRINTF_DECIMAL_BUFFER_SIZE_def PRINTF_INTEGER_BUFFER_SIZE_def)

lemma push_fits: "length buf < PRINTF_INTEGER_BUFFER_SIZE \<Longrightarrow> buf_push c buf = Some (buf @ [c])"
  by (simp add: buf_push_def)

lemma fraction_loop_returns: "fits buf \<Longrightarrow> returns (fraction_loop c f buf) (\<lambda>(c, b). fits b)"
proof (induction c f buf rule: fraction_loop.induct)
  case (1 c f buf)
  then show ?case
    by (subst fraction_loop.simps) (auto simp: push_fits returns_if)
qed

lemma extra_zeros_returns: "fits buf \<Longrightarrow> returns (extra_zeros c buf) fits"
proof (induction c buf rule: extra_zeros.induct)
  case (1 c buf)
  then show ?case
    by (subst extra_zeros.simps) (auto simp: push_fits)
qed

lemma integral_loop_returns: "fits buf \<Longrightarrow> returns (integral_loop i buf) fits"
proof (induction i buf rule: integral_loop.induct)
  case (1 i buf)
  then show ?case
    by (subst integral_loop.simps) (auto simp: push_fits returns_if)
qed

lemma push_point_returns: "fits buf \<Longrightarrow> returns (push_point buf) fits"
  by (auto simp: push_point_def push_fits)

lemma fraction_buf_returns: "fits buf \<Longrightarrow> returns (fraction_buf f p flags buf) fits"
  unfolding fraction_buf_def Let_def
  by (auto simp: split_beta intro!: returns_bind [OF fraction_loop_returns] returns_bind [OF extra_zeros_returns]
      push_point_returns)

lemma decimal_buf_returns: "fits buf \<Longrightarrow> returns (decimal_buf n p w flags buf) (\<lambda>(b, w). fits b)"
  unfolding decimal_buf_def Let_def
  by (rule returns_bind [OF fraction_buf_returns], assumption,
      rule returns_bind [OF integral_loop_returns], assumption,
      rule returns_bind [where P = fits], simp add: returns_if zero_fill_returns,
      rule returns_bind [OF push_sign_returns], assumption, simp)

lemma print_broken_up_decimal_returns:
  assumes "gadget_ok g" "fits buf"
  shows "\<exists>t. print_broken_up_decimal n g p w flags buf = Some (sink.emit t g)"
proof -
  obtain b w' where b: "decimal_buf n p w flags buf = Some (b, w')" "fits b"
    using decimal_buf_returns [OF assms(2), of n p w flags] by (auto elim!: returnsE)
  then have "length b < 2 ^ 32"
    by (simp add: PRINTF_INTEGER_BUFFER_SIZE_def)
  then show ?thesis
    using out_rev_emit [OF assms(1)] b(1) by (auto simp: print_broken_up_decimal_def)
qed

lemma limit_precision_eq:
  assumes "fits buf"
  shows "limit_precision p buf =
    (let k = min (PRINTF_INTEGER_BUFFER_SIZE - length buf) (unat p - 17)
     in Some (p - of_nat k, buf @ replicate k CHR ''0''))"
  using assms
proof (induction p buf rule: limit_precision.induct)
  case (1 p buf)
  show ?case
  proof (cases "length buf < PRINTF_INTEGER_BUFFER_SIZE \<and> PRINTF_MAX_SUPPORTED_PRECISION < p")
    case True
    then have p: "17 < unat p"
      by (simp add: PRINTF_MAX_SUPPORTED_PRECISION_def word_less_nat_alt)
    then have "p \<noteq> 0"
      by auto
    then have p1: "unat (p - 1) = unat p - 1"
      by (rule unat_minus_one)
    define k where "k = min (PRINTF_INTEGER_BUFFER_SIZE - length (buf @ [CHR ''0''])) (unat (p - 1) - 17)"
    have k: "min (PRINTF_INTEGER_BUFFER_SIZE - length buf) (unat p - 17) = Suc k"
      using True p p1 unfolding k_def min_def by auto
    have "limit_precision p buf = limit_precision (p - 1) (buf @ [CHR ''0''])"
      using True by (subst limit_precision.simps) (simp add: push_fits)
    also have "\<dots> = Some (p - 1 - of_nat k, (buf @ [CHR ''0'']) @ replicate k CHR ''0'')"
      using "1.IH" True by (simp add: push_fits k_def Let_def)
    finally show ?thesis
      by (simp add: k Let_def replicate_app_Cons_same algebra_simps)
  next
    case False
    then have "min (PRINTF_INTEGER_BUFFER_SIZE - length buf) (unat p - 17) = 0"
      by (auto simp: PRINTF_MAX_SUPPORTED_PRECISION_def word_less_nat_alt not_less)
    then show ?thesis
      using False by (subst limit_precision.simps) auto
  qed
qed

subsection \<open>The components\<close>

lemma powers_of_10_nth: "unat p < 18 \<Longrightarrow> powers_of_10 ! unat p = 10 ^ unat p"
  by (simp add: powers_of_10_def NUM_DECIMAL_DIGITS_IN_INT64_T_def)

lemma length_powers_of_10: "length powers_of_10 = 18"
  by (simp add: powers_of_10_def NUM_DECIMAL_DIGITS_IN_INT64_T_def)

text \<open>The fraction of the number, scaled and rounded.\<close>

definition scaled_fraction :: "rat \<Rightarrow> nat \<Rightarrow> rat" where
  "scaled_fraction m p = to_double (to_double (m - of_int \<lfloor>m\<rfloor>) * 10 ^ p)"

lemma int_exact: "\<bar>n\<bar> \<le> 9007199254740992 \<Longrightarrow> to_double (of_int n) = of_int n"
  using double.int_law [of n] by simp

lemma scaled_fraction_bounds:
  fixes m :: rat
  defines "d \<equiv> m - of_int \<lfloor>m\<rfloor>"
  shows "0 \<le> scaled_fraction m p" "\<bar>scaled_fraction m p - d * 10 ^ p\<bar> \<le> 2 * 10 ^ p / 2 ^ 53"
    "scaled_fraction m p \<le> 10 ^ p * (1 + 1 / 2 ^ 53)"
proof -
  define P :: rat where "P = 10 ^ p"
  have P: "0 < P"
    by (simp add: P_def)
  have d: "0 \<le> d" "d \<le> 1"
    using floor_correct [of m] by (simp_all add: d_def)
  define a where "a = to_double d"
  have a: "0 \<le> a" "a \<le> 1" "\<bar>a - d\<bar> \<le> 1 / 2 ^ 53"
    using double.rnd_nonneg [OF d(1)] double.rnd_le_int [of 1 d] double.error_law [of d] d by (simp_all add: a_def)
  have b: "0 \<le> to_double (a * P)" "\<bar>to_double (a * P) - a * P\<bar> \<le> a * P / 2 ^ 53"
    using double.rnd_nonneg [of "a * P"] double.error_law [of "a * P"] a P by simp_all
  have aP: "a * P \<le> P"
    using a(2) P by (simp add: mult_left_le_one_le a(1))
  have "\<bar>a * P - d * P\<bar> \<le> P / 2 ^ 53"
    using mult_right_mono [OF a(3), of P] P by (simp add: left_diff_distrib [symmetric] abs_mult)
  moreover define e :: rat where "e = P / 2 ^ 53"
  moreover have "a * P / 2 ^ 53 \<le> P / 2 ^ 53"
    using aP by (intro divide_right_mono) simp_all
  ultimately have "\<bar>to_double (a * P) - d * P\<bar> \<le> e + e"
    using b(2) by linarith
  then show "\<bar>scaled_fraction m p - d * 10 ^ p\<bar> \<le> 2 * 10 ^ p / 2 ^ 53"
    unfolding scaled_fraction_def d_def [symmetric] a_def [symmetric] P_def [symmetric] e_def by simp
  show "0 \<le> scaled_fraction m p" "scaled_fraction m p \<le> 10 ^ p * (1 + 1 / 2 ^ 53)"
    using b aP \<open>a * P / 2 ^ 53 \<le> P / 2 ^ 53\<close>
    unfolding scaled_fraction_def d_def [symmetric] a_def [symmetric] P_def [symmetric] abs_le_iff
    by (simp_all add: algebra_simps)
qed

lemma scaled_fraction_int64: "p < 18 \<Longrightarrow> \<lfloor>scaled_fraction m p\<rfloor> < 2 ^ 63"
proof -
  assume "p < 18"
  then have "(10 :: rat) ^ p \<le> 10 ^ 17"
    by (intro power_increasing) auto
  then have "(10 :: rat) ^ p * (1 + 1 / 2 ^ 53) \<le> 10 ^ 17 * 2"
    by (intro mult_mono) auto
  then have "scaled_fraction m p < of_int (2 ^ 63)"
    using scaled_fraction_bounds(3) [of m p] by simp
  then show ?thesis
    by (simp only: floor_less_iff)
qed

lemma get_components_cases:
  assumes "0 \<le> m" "m \<le> 1000000000"
  shows "18 \<le> unat p \<Longrightarrow> get_components neg m p = None"
    and "unat p < 18 \<Longrightarrow> p \<noteq> 0 \<Longrightarrow> get_components neg m p =
      (let b = scaled_fraction m (unat p);
           (i, f) = round_fraction \<lfloor>m\<rfloor> \<lfloor>b\<rfloor> (to_double (b - to_double (of_int \<lfloor>b\<rfloor>))) (10 ^ unat p)
       in Some \<lparr>integral = i, fractional = f, is_negative = neg\<rparr>)"
    and "unat p < 18 \<Longrightarrow> \<exists>n. get_components neg m p = Some n"
proof -
  have "\<lfloor>m\<rfloor> \<le> 1000000000" "0 \<le> \<lfloor>m\<rfloor>"
    using assms by (simp_all add: floor_le_iff)
  then have i: "to_int64 m = Some \<lfloor>m\<rfloor>" "to_double (of_int \<lfloor>m\<rfloor>) = of_int \<lfloor>m\<rfloor>"
    by (simp_all add: to_int64_def int_exact)
  have f: "unat p < 18 \<Longrightarrow> to_int64 (scaled_fraction m (unat p)) = Some \<lfloor>scaled_fraction m (unat p)\<rfloor>"
    unfolding to_int64_def using scaled_fraction_int64 [of "unat p" m] by presburger
  show "18 \<le> unat p \<Longrightarrow> get_components neg m p = None"
    by (simp add: get_components_def i length_powers_of_10)
  show "unat p < 18 \<Longrightarrow> p \<noteq> 0 \<Longrightarrow> get_components neg m p =
      (let b = scaled_fraction m (unat p);
           (i, f) = round_fraction \<lfloor>m\<rfloor> \<lfloor>b\<rfloor> (to_double (b - to_double (of_int \<lfloor>b\<rfloor>))) (10 ^ unat p)
       in Some \<lparr>integral = i, fractional = f, is_negative = neg\<rparr>)"
    by (simp add: get_components_def i length_powers_of_10 powers_of_10_nth scaled_fraction_def [symmetric] f Let_def)
  show "unat p < 18 \<Longrightarrow> \<exists>n. get_components neg m p = Some n"
    by (simp add: get_components_def i length_powers_of_10 powers_of_10_nth scaled_fraction_def [symmetric] f Let_def
        split: prod.split)
qed

text \<open>Rounding to the nearest fraction, up to the rounding of the doubles.\<close>

lemma round_fraction_error:
  assumes b: "0 \<le> b" "b \<le> P" and P: "P = of_int n" "1 \<le> n" "n \<le> 1000000000000000"
    and r: "r = to_double (b - to_double (of_int \<lfloor>b\<rfloor>))"
    and e: "round_fraction i \<lfloor>b\<rfloor> r P = (i', f')"
  shows "\<bar>(of_int i' * P + of_int f') - (of_int i * P + b)\<bar> \<le> 1 / 2 + 1 / 2 ^ 53" "0 \<le> f'"
    "i' = i \<or> i' = i + 1"
proof -
  define f where "f = \<lfloor>b\<rfloor>"
  have f: "of_int f \<le> b" "b < of_int f + 1" "0 \<le> f"
    using floor_correct [of b] b(1) by (simp_all add: f_def)
  have fn: "f \<le> n"
    using b(2) unfolding f_def P(1) by (metis floor_mono floor_of_int)
  have exact: "to_double (of_int f) = of_int f" "to_double (of_int (f + 1)) = of_int (f + 1)"
    using fn f(3) P(3) by (simp_all only: int_exact)
  define x where "x = b - of_int f"
  have x: "0 \<le> x" "x < 1"
    using f by (simp_all add: x_def)
  have "r = to_double x"
    using r by (simp add: x_def f_def [symmetric] exact)
  then have "\<bar>r - x\<bar> \<le> x / 2 ^ 53"
    using double.error_law [of x] x by simp
  moreover define u :: rat where "u = 1 / 2 ^ 53"
  moreover have "x / 2 ^ 53 \<le> 1 / 2 ^ 53"
    using x by (intro divide_right_mono) simp_all
  ultimately have rx: "r - x \<le> u" "x - r \<le> u"
    by linarith+
  have bx: "b = of_int f + x"
    by (simp add: x_def)
  have carry: "f + 1 = n" if "1 / 2 < r" "P \<le> of_int (f + 1)"
  proof -
    have "f \<noteq> n"
    proof
      assume "f = n"
      then have "x = 0"
        using x(1) b(2) by (simp add: bx P(1))
      then show False
        using that(1) \<open>r = to_double x\<close> by simp
    qed
    moreover have "n \<le> f + 1"
      using that(2) by (simp only: P(1) of_int_le_iff)
    ultimately show ?thesis
      using fn by linarith
  qed
  have "\<bar>(of_int i' * P + of_int f') - (of_int i * P + b)\<bar> \<le> 1 / 2 + u \<and> 0 \<le> f' \<and> (i' = i \<or> i' = i + 1)"
  proof (cases "1 / 2 < r")
    case True
    show ?thesis
    proof (cases "P \<le> of_int (f + 1)")
      case c: True
      then have "P \<le> to_double (of_int (f + 1))"
        by (simp only: exact)
      then have "i' = i + 1" "f' = 0"
        using e True by (simp_all add: round_fraction_def f_def [symmetric])
      moreover have "P = of_int f + 1"
        using carry [OF True c] unfolding P(1) by (metis of_int_1 of_int_add)
      ultimately show ?thesis
        using rx True x unfolding bx by (simp add: algebra_simps)
    next
      case c: False
      then have "\<not> P \<le> to_double (of_int (f + 1))"
        unfolding exact .
      then have "i' = i" "f' = f + 1"
        using e True by (simp_all add: round_fraction_def f_def [symmetric])
      then show ?thesis
        using rx True x f(3) unfolding bx by simp
    qed
  next
    case False
    then have "i' = i" "f' = f + 1 \<and> r = 1 / 2 \<or> f' = f"
      using e by (auto simp: round_fraction_def f_def [symmetric] split: if_splits)
    then show ?thesis
      using rx False x f(3) unfolding bx by auto
  qed
  then show "\<bar>(of_int i' * P + of_int f') - (of_int i * P + b)\<bar> \<le> 1 / 2 + 1 / 2 ^ 53" "0 \<le> f'" "i' = i \<or> i' = i + 1"
    unfolding u_def by blast+
qed

subsection \<open>The text\<close>

abbreviation digit_chars :: "nat \<Rightarrow> char list" where
  "digit_chars n \<equiv> map (\<lambda>d. char_of (48 + d)) (digits_lsb 10 n)"

lemma digits_step: "10 \<le> n \<Longrightarrow> digits_lsb 10 n = n mod 10 # digits_lsb 10 (n div 10)" "n < 10 \<Longrightarrow> digits_lsb 10 n = [n]"
  by (subst digits_lsb.simps, simp)+

lemma int_digit: "nat (int n mod 10) = n mod 10"
  by (simp add: nat_mod_distrib)

lemma fraction_loop_digits:
  "length buf + length (digits_lsb 10 n) \<le> PRINTF_INTEGER_BUFFER_SIZE \<Longrightarrow>
   fraction_loop c (int n) buf = Some (c - of_nat (length (digits_lsb 10 n)), buf @ digit_chars n)"
proof (induction n arbitrary: c buf rule: less_induct)
  case (less n)
  define b where "b = buf @ [char_of (48 + n mod 10)]"
  have len: "length buf < PRINTF_INTEGER_BUFFER_SIZE"
    using less.prems by (cases "digits_lsb 10 n") auto
  then have step: "fraction_loop c (int n) buf =
      (if n div 10 = 0 then Some (c - 1, b) else fraction_loop (c - 1) (int (n div 10)) b)"
    by (subst fraction_loop.simps) (simp add: push_fits b_def int_digit zdiv_int)
  show ?case
  proof (cases "n < 10")
    case True
    then show ?thesis
      by (simp add: step digits_step(2) b_def)
  next
    case False
    then have d: "digits_lsb 10 n = n mod 10 # digits_lsb 10 (n div 10)" "n div 10 < n"
      using digits_step(1) [of n] by simp_all
    have "fraction_loop (c - 1) (int (n div 10)) b =
        Some (c - 1 - of_nat (length (digits_lsb 10 (n div 10))), b @ digit_chars (n div 10))"
      using less.IH [OF d(2), of b "c - 1"] less.prems unfolding d(1) by (simp add: b_def)
    then show ?thesis
      using False unfolding d(1) step by (simp add: b_def algebra_simps)
  qed
qed

lemma integral_loop_digits:
  "length buf + length (digits_lsb 10 n) \<le> PRINTF_INTEGER_BUFFER_SIZE \<Longrightarrow>
   integral_loop (int n) buf = Some (buf @ digit_chars n)"
proof (induction n arbitrary: buf rule: less_induct)
  case (less n)
  define b where "b = buf @ [char_of (48 + n mod 10)]"
  have len: "length buf < PRINTF_INTEGER_BUFFER_SIZE"
    using less.prems by (cases "digits_lsb 10 n") auto
  then have step: "integral_loop (int n) buf =
      (if n div 10 = 0 then Some b else integral_loop (int (n div 10)) b)"
    by (subst integral_loop.simps) (simp add: push_fits b_def int_digit zdiv_int)
  show ?case
  proof (cases "n < 10")
    case True
    then show ?thesis
      by (simp add: step digits_step(2) b_def)
  next
    case False
    then have d: "digits_lsb 10 n = n mod 10 # digits_lsb 10 (n div 10)" "n div 10 < n"
      using digits_step(1) [of n] by simp_all
    have "integral_loop (int (n div 10)) b = Some (b @ digit_chars (n div 10))"
      using less.IH [OF d(2), of b] less.prems unfolding d(1) by (simp add: b_def)
    then show ?thesis
      using False unfolding d(1) step by (simp add: b_def)
  qed
qed

lemma extra_zeros_eq:
  "length buf + unat c \<le> PRINTF_INTEGER_BUFFER_SIZE \<Longrightarrow> extra_zeros c buf = Some (buf @ replicate (unat c) CHR ''0'')"
proof (induction c buf rule: extra_zeros.induct)
  case (1 c buf)
  show ?case
  proof (cases "c = 0")
    case True
    then show ?thesis
      by (subst extra_zeros.simps) simp
  next
    case False
    then have c: "unat (c - 1) = unat c - 1" "0 < unat c"
      by (simp_all add: unat_minus_one unat_gt_0)
    then have len: "length buf < PRINTF_INTEGER_BUFFER_SIZE"
      using "1.prems" by simp
    have "extra_zeros c buf = extra_zeros (c - 1) (buf @ [CHR ''0''])"
      using False len by (subst extra_zeros.simps) (simp add: push_fits word_neq_0_conv)
    also have "\<dots> = Some (buf @ CHR ''0'' # replicate (unat c - 1) CHR ''0'')"
      using "1.IH" "1.prems" False len c by (simp add: push_fits word_neq_0_conv)
    finally show ?thesis
      using c(2) by (cases "unat c") simp_all
  qed
qed

text \<open>A fixed number of decimals.\<close>

definition decimal_text :: "bool \<Rightarrow> nat \<Rightarrow> nat \<Rightarrow> nat \<Rightarrow> char list" where
  "decimal_text negative i f p =
     (if negative then ''-'' else []) @ dec i @ ''.'' @ replicate (p - length (dec f)) CHR ''0'' @ dec f"

lemma print_broken_up_decimal_text:
  assumes "gadget_ok g" "i \<le> 1000000001" "f < 10 ^ unat p" "p \<noteq> 0" "unat p \<le> 17"
  shows "print_broken_up_decimal \<lparr>integral = int i, fractional = int f, is_negative = neg\<rparr> g p 0 FLAGS_PRECISION [] =
    Some (sink.emit (decimal_text neg i f (unat p)) g)"
proof -
  define F I where "F = digits_lsb 10 f" and "I = digits_lsb 10 i"
  have "0 < unat p"
    using assms(4) by (simp add: unat_gt_0)
  then have F: "length F \<le> unat p"
    using length_digits_lsb [of 10 f "unat p - 1"] assms(3) by (simp add: F_def)
  have I: "length I \<le> 10"
    using length_digits_lsb [of 10 i 9] assms(2) by (simp add: I_def)
  define z where "z = p - of_nat (length F)"
  have z: "unat z = unat p - length F"
  proof -
    have "(of_nat (length F) :: u32) \<le> p" "unat (of_nat (length F) :: u32) = length F"
      using F assms(5) by (simp_all add: word_le_nat_alt unat_of_nat)
    then show ?thesis
      unfolding z_def by (simp add: unat_sub)
  qed
  define b where "b = (map (\<lambda>d. char_of (48 + d)) F @ replicate (unat z) CHR ''0'') @ ''.''"
  have flags: "\<not> has_flag FLAGS_PRECISION FLAGS_ADAPT_EXP" "\<not> has_flag FLAGS_PRECISION FLAGS_HASH"
    "\<not> has_flag FLAGS_PRECISION FLAGS_ZEROPAD" "\<not> has_flag FLAGS_PRECISION FLAGS_PLUS"
    "\<not> has_flag FLAGS_PRECISION FLAGS_SPACE" "\<not> has_flag FLAGS_PRECISION FLAGS_LEFT"
    by (simp_all add: has_flag_def flag_defs)
  have "fraction_loop p (int f) [] = Some (z, map (\<lambda>d. char_of (48 + d)) F)"
    using fraction_loop_digits [of "[]" f p] F assms(5) by (simp add: F_def z_def PRINTF_INTEGER_BUFFER_SIZE_def)
  moreover have "extra_zeros z (map (\<lambda>d. char_of (48 + d)) F) =
      Some (map (\<lambda>d. char_of (48 + d)) F @ replicate (unat z) CHR ''0'')"
    using z F assms(5) by (intro extra_zeros_eq) (simp add: PRINTF_INTEGER_BUFFER_SIZE_def)
  ultimately have "fraction_buf (int f) p FLAGS_PRECISION [] = Some b"
    using assms(4,5) flags F z
    by (simp add: fraction_buf_def push_point_def push_fits b_def PRINTF_INTEGER_BUFFER_SIZE_def)
  moreover have "integral_loop (int i) b = Some (b @ map (\<lambda>d. char_of (48 + d)) I)"
    using integral_loop_digits [of b i] I F z assms(5) by (simp add: I_def b_def PRINTF_INTEGER_BUFFER_SIZE_def)
  moreover define t where "t = (b @ map (\<lambda>d. char_of (48 + d)) I) @ (if neg then ''-'' else [])"
  moreover have "push_sign neg FLAGS_PRECISION (b @ map (\<lambda>d. char_of (48 + d)) I) = Some t" "length t < 2 ^ 32"
    using I F z assms(5) flags by (simp_all add: push_sign_def push_fits b_def t_def PRINTF_INTEGER_BUFFER_SIZE_def)
  moreover have "out_rev_text t 0 FLAGS_PRECISION = decimal_text neg i f (unat p)"
    using flags z by (simp add: out_rev_text_def decimal_text_def dec_def t_def b_def F_def I_def)
  ultimately show ?thesis
    using flags out_rev_emit [OF assms(1), of t 0 FLAGS_PRECISION]
    by (simp add: print_broken_up_decimal_def decimal_buf_def)
qed

subsection \<open>Properties\<close>

text \<open>The scaled fraction was rounded up to one, or lies, as computed, half way below one.\<close>

definition half_carry :: "rat \<Rightarrow> nat \<Rightarrow> bool" where
  "half_carry m p \<longleftrightarrow>
     (let b = scaled_fraction m p; f = \<lfloor>b\<rfloor>
      in f = 10 ^ p \<or> f + 1 = 10 ^ p \<and> to_double (b - of_int f) = 1 / 2)"

lemma scaled_fraction_le:
  assumes "p \<le> 15"
  shows "scaled_fraction m p \<le> 10 ^ p" "(10 :: int) ^ p \<le> 1000000000000000"
proof -
  show n: "(10 :: int) ^ p \<le> 1000000000000000"
    using power_increasing [OF assms, of "10 :: int"] by simp
  have "m - of_int \<lfloor>m\<rfloor> \<le> of_int 1"
    using floor_correct [of m] by simp
  then have "to_double (m - of_int \<lfloor>m\<rfloor>) \<le> 1"
    using double.rnd_le_int [of 1 "m - of_int \<lfloor>m\<rfloor>"] by simp
  then have "to_double (m - of_int \<lfloor>m\<rfloor>) * 10 ^ p \<le> of_int (10 ^ p)"
    by (simp add: mult_le_cancel_right1)
  then have "scaled_fraction m p \<le> to_double (of_int (10 ^ p))"
    unfolding scaled_fraction_def by (rule double.mono_law)
  then show "scaled_fraction m p \<le> 10 ^ p"
    using int_exact [of "10 ^ p"] n by simp
qed

lemma get_components_rounds:
  assumes m: "0 \<le> m" "m \<le> 1000000000" and p: "p \<noteq> 0" "unat p \<le> 15" and c: "\<not> half_carry m (unat p)"
  obtains i f where "get_components neg m p = Some \<lparr>integral = int i, fractional = int f, is_negative = neg\<rparr>"
    "i \<le> 1000000001" "f < 10 ^ unat p"
    "\<bar>(of_nat i + of_nat f / 10 ^ unat p) - m\<bar> \<le> 1 / (2 * 10 ^ unat p) + 3 / 2 ^ 53"
proof -
  define P :: rat where "P = 10 ^ unat p"
  define b where "b = scaled_fraction m (unat p)"
  define r where "r = to_double (b - to_double (of_int \<lfloor>b\<rfloor>))"
  obtain i f where e: "round_fraction \<lfloor>m\<rfloor> \<lfloor>b\<rfloor> r P = (i, f)"
    by (cases "round_fraction \<lfloor>m\<rfloor> \<lfloor>b\<rfloor> r P")
  have P: "P = of_int (10 ^ unat p)" "1 \<le> (10 :: int) ^ unat p" "(10 :: int) ^ unat p \<le> 1000000000000000" "0 < P"
    using scaled_fraction_le(2) [OF p(2)] by (simp_all add: P_def)
  have b: "0 \<le> b" "b \<le> P"
    using scaled_fraction_bounds(1) [of m "unat p"] scaled_fraction_le(1) [OF p(2), of m] by (simp_all add: b_def P_def)
  note err = round_fraction_error [OF b P(1-3) r_def e]
  have i: "0 \<le> i" "i \<le> 1000000001"
    using err(3) m by (auto simp: floor_le_iff)
  have "of_int \<lfloor>b\<rfloor> \<le> P"
    using b(2) floor_correct [of b] by linarith
  then have fl: "\<lfloor>b\<rfloor> \<le> 10 ^ unat p"
    unfolding P(1) by (simp only: of_int_le_iff)
  have "0 \<le> \<lfloor>b\<rfloor>"
    using b(1) by simp
  have exact: "to_double (of_int (\<lfloor>b\<rfloor> + 1)) = of_int (\<lfloor>b\<rfloor> + 1)" "to_double (of_int \<lfloor>b\<rfloor>) = of_int \<lfloor>b\<rfloor>"
    using fl P(3) \<open>0 \<le> \<lfloor>b\<rfloor>\<close> by (intro int_exact; linarith)+
  have f: "f < 10 ^ unat p"
    using e c fl unfolding round_fraction_def exact P(1) of_int_le_iff r_def
    by (auto simp: half_carry_def b_def [symmetric] Let_def split: if_splits)
  define u :: rat where "u = P / 2 ^ 53"
  have "1 / 2 ^ 53 \<le> u"
    using P(2) unfolding u_def P(1) by (intro divide_right_mono) simp_all
  moreover define A B where "A = of_int i * P + of_int f" and "B = of_int \<lfloor>m\<rfloor> * P + b"
  moreover have "\<bar>b - (m - of_int \<lfloor>m\<rfloor>) * P\<bar> \<le> 2 * u"
    using scaled_fraction_bounds(2) [of m "unat p"] by (simp add: b_def P_def u_def)
  then have "\<bar>B - m * P\<bar> \<le> 2 * u"
    by (simp add: B_def algebra_simps)
  ultimately have "\<bar>A - m * P\<bar> \<le> 1 / 2 + 3 * u"
    using err(1) by linarith
  then have "\<bar>(of_int i + of_int f / P - m) * P\<bar> \<le> (1 / (2 * P) + 3 / 2 ^ 53) * P"
    using P(4) unfolding A_def by (simp add: algebra_simps u_def)
  then have "\<bar>of_int i + of_int f / P - m\<bar> \<le> 1 / (2 * P) + 3 / 2 ^ 53"
    using P(4) by (simp only: abs_mult abs_of_pos mult_le_cancel_right_pos)
  then show ?thesis
    using that [of "nat i" "nat f"] get_components_cases(2) [OF m, of p neg] p e f i err(2)
    by (simp add: b_def [symmetric] r_def [symmetric] P_def Let_def nat_less_iff)
qed

lemma print_floating_point_finite:
  assumes "m \<le> 1000000000" "has_flag flags FLAGS_PRECISION"
  shows "print_floating_point g (Finite neg m) p w flags =
    (let k = min PRINTF_INTEGER_BUFFER_SIZE (unat p - 17)
     in print_decimal_number g neg m (p - of_nat k) w flags (replicate k CHR ''0''))"
  using assms
  by (simp add: print_floating_point_def PRINTF_FLOAT_NOTATION_THRESHOLD_def limit_precision_eq Let_def)

text \<open>C37. With the floating point conversion compiled in, a number up to a thousand million is printed
  with the wanted number of decimals, up to fifteen: the text is the sign, the integral part in decimal,
  the point and the fraction padded with zeros, and the value it denotes is within half a unit of the
  last decimal of the number, up to three roundings of a double. The exception is a fraction that the
  arithmetic places exactly half a unit below one.\<close>

theorem print_float_rounds:
  assumes "gadget_ok g" "0 \<le> m" "m \<le> 1000000000" "p \<noteq> 0" "unat p \<le> 15" "\<not> half_carry m (unat p)"
  shows "\<exists>i f. print_floating_point g (Finite neg m) p 0 FLAGS_PRECISION =
      Some (sink.emit (decimal_text neg i f (unat p)) g) \<and> f < 10 ^ unat p \<and>
    \<bar>(of_nat i + of_nat f / 10 ^ unat p) - m\<bar> \<le> 1 / (2 * 10 ^ unat p) + 3 / 2 ^ 53"
proof -
  obtain i f where c: "get_components neg m p = Some \<lparr>integral = int i, fractional = int f, is_negative = neg\<rparr>"
    "i \<le> 1000000001" "f < 10 ^ unat p"
    "\<bar>(of_nat i + of_nat f / 10 ^ unat p) - m\<bar> \<le> 1 / (2 * 10 ^ unat p) + 3 / 2 ^ 53"
    using assms(2-6) by (rule get_components_rounds)
  have "has_flag FLAGS_PRECISION FLAGS_PRECISION"
    by (simp add: has_flag_def flag_defs)
  then have "print_floating_point g (Finite neg m) p 0 FLAGS_PRECISION =
      Some (sink.emit (decimal_text neg i f (unat p)) g)"
    using print_broken_up_decimal_text [OF assms(1) c(2,3) assms(4), of neg] assms(3,5) c(1)
    by (simp add: print_floating_point_finite print_decimal_number_def Let_def)
  then show ?thesis
    using c(3,4) by blast
qed

theorem print_float_rounds_witness:
  "\<exists>i f. print_floating_point (buffer_gadget (Some (replicate 20 NUL)) 20) (Finite True (5 / 4)) 3 0 FLAGS_PRECISION =
      Some (sink.emit (decimal_text True i f 3) (buffer_gadget (Some (replicate 20 NUL)) 20)) \<and> f < 1000 \<and>
    \<bar>(of_nat i + of_nat f / 1000) - 5 / 4\<bar> \<le> (1 / 2000 + 3 / 2 ^ 53 :: rat)"
proof -
  have "gadget_ok (buffer_gadget (Some (replicate 20 NUL)) 20)"
    by (simp add: gadget_ok_def buffer_gadget_def discarding_gadget_def PRINTF_MAX_POSSIBLE_BUFFER_SIZE_def)
  moreover have "\<not> half_carry (5 / 4) 3"
    by code_simp
  ultimately show ?thesis
    using print_float_rounds [of "buffer_gadget (Some (replicate 20 NUL)) 20" "5 / 4" 3 True] by simp
qed

text \<open>C38. The precision of a floating point conversion is limited only by the local buffer: up to 49 every
  number of moderate size is printed, with any width and flags, and never leaves the local buffer or the
  destination; from 50 on the limiting loop stops at the full buffer and the table of powers of ten is
  read past its end.\<close>

theorem print_float_precision_limit:
  assumes "gadget_ok g" "0 \<le> m" "m \<le> 1000000000" "has_flag flags FLAGS_PRECISION"
  shows "print_floating_point g (Finite neg m) p w flags = None \<longleftrightarrow> 50 \<le> unat p"
proof -
  define k where "k = min PRINTF_INTEGER_BUFFER_SIZE (unat p - 17)"
  define q where "q = p - of_nat k"
  have k: "k \<le> 32" "k \<le> unat p"
    by (auto simp: k_def PRINTF_INTEGER_BUFFER_SIZE_def)
  then have "unat (of_nat k :: u32) = k"
    by (simp add: unat_of_nat)
  then have q: "unat q = unat p - k"
    unfolding q_def using k(2) by (simp add: unat_sub word_le_nat_alt)
  have fp: "print_floating_point g (Finite neg m) p w flags = print_decimal_number g neg m q w flags (replicate k CHR ''0'')"
    using assms(3,4) by (simp add: print_floating_point_finite k_def q_def Let_def)
  show ?thesis
  proof (cases "50 \<le> unat p")
    case True
    then have "18 \<le> unat q"
      by (simp add: q k_def PRINTF_INTEGER_BUFFER_SIZE_def)
    then show ?thesis
      using True get_components_cases(1) [OF assms(2,3)] by (simp add: fp print_decimal_number_def)
  next
    case False
    then have "unat q < 18"
      unfolding q k_def PRINTF_INTEGER_BUFFER_SIZE_def min_def by (simp split: if_split) arith
    then obtain n where n: "get_components neg m q = Some n"
      using get_components_cases(3) [OF assms(2,3)] by blast
    have "fits (replicate k CHR ''0'')"
      by (simp add: k_def)
    then show ?thesis
      using False print_broken_up_decimal_returns [OF assms(1), of "replicate k CHR ''0''" n q w flags]
      by (auto simp: fp print_decimal_number_def n)
  qed
qed

theorem print_float_precision_limit_witness:
  "print_floating_point (discarding_gadget ()) (Finite False (3 / 2)) 50 0 FLAGS_PRECISION = None"
proof -
  have "gadget_ok (discarding_gadget ())" "has_flag FLAGS_PRECISION FLAGS_PRECISION"
    by (simp_all add: gadget_ok_def discarding_gadget_def has_flag_def flag_defs)
  then show ?thesis
    using print_float_precision_limit [of "discarding_gadget ()" "3 / 2" FLAGS_PRECISION False 50 0] by simp
qed

text \<open>The exception of the rounding property happens: 0.95 with one decimal. The product with ten is
  rounded to nine and a half, the fraction becomes ten, and the number of digits left wraps around.\<close>

lemma half_carry_example:
  assumes "gadget_ok g"
  shows "print_floating_point g (Finite False (to_double (95 / 100))) 1 0 FLAGS_PRECISION =
    Some (sink.emit (replicate 30 CHR ''0'' @ ''10'') g)"
proof -
  define m :: rat where "m = to_double (95 / 100)"
  have m: "m = 8556839292003942 / 9007199254740992"
    unfolding m_def by code_simp
  have "get_components False m 1 = Some \<lparr>integral = 0, fractional = 10, is_negative = False\<rparr>"
    unfolding m by code_simp
  moreover have "decimal_buf \<lparr>integral = 0, fractional = 10, is_negative = False\<rparr> 1 0 FLAGS_PRECISION [] =
      Some (''01'' @ replicate 30 CHR ''0'', 0)"
    by code_simp
  moreover have "out_rev g (''01'' @ replicate 30 CHR ''0'') 0 FLAGS_PRECISION =
      Some (sink.emit (replicate 30 CHR ''0'' @ ''10'') g)"
    using out_rev_emit [OF assms, of "''01'' @ replicate 30 CHR ''0''" 0 FLAGS_PRECISION]
    by (simp add: out_rev_text_def has_flag_def flag_defs)
  ultimately have "print_decimal_number g False m 1 0 FLAGS_PRECISION [] =
      Some (sink.emit (replicate 30 CHR ''0'' @ ''10'') g)"
    by (simp add: print_decimal_number_def print_broken_up_decimal_def)
  then show ?thesis
    unfolding m_def [symmetric]
    by (subst print_floating_point_finite) (simp_all add: m has_flag_def flag_defs)
qed

end
