(* ===== verification/Util.thy ===== *)
theory Util
  imports Laggy_Prelude
begin

text \<open>
  The memory and string helpers of util.h over a flat byte memory. The counted loops always end; the
  string loops end where the memory has a terminator, and what they compute is proved together with
  their end.
\<close>

type_synonym mem = "u32 \<Rightarrow> u8"

subsection \<open>Counted loops\<close>

function memsetb :: "mem \<Rightarrow> u32 \<Rightarrow> u8 \<Rightarrow> u32 \<Rightarrow> mem" where
  "memsetb m p c len =
     (if len \<noteq> 0 then memsetb (m(p := c)) (p + 1) c (len - 1) else m)"
  by pat_completeness auto
termination
  by (relation "measure (\<lambda>(m, p, c, len). unat len)") (auto simp: measure_unat)

text \<open>A 16-bit store puts the high byte first.\<close>

definition store16 :: "mem \<Rightarrow> u32 \<Rightarrow> u16 \<Rightarrow> mem" where
  "store16 m p w = m(p := ucast (drop_bit 8 w), p + 1 := ucast w)"

definition load16 :: "mem \<Rightarrow> u32 \<Rightarrow> u16" where
  "load16 m p = push_bit 8 (ucast (m p)) OR ucast (m (p + 1))"

function memsetw :: "mem \<Rightarrow> u32 \<Rightarrow> u16 \<Rightarrow> u32 \<Rightarrow> mem" where
  "memsetw m p c len =
     (if len \<noteq> 0 then memsetw (store16 m p c) (p + 2) c (len - 1) else m)"
  by pat_completeness auto
termination
  by (relation "measure (\<lambda>(m, p, c, len). unat len)") (auto simp: measure_unat)

definition memset :: "mem \<Rightarrow> u32 \<Rightarrow> u32 \<Rightarrow> u32 \<Rightarrow> mem" where
  "memset m ptr c len = memsetb m ptr (ucast c) len"

function memcpyb :: "mem \<Rightarrow> u32 \<Rightarrow> u32 \<Rightarrow> u32 \<Rightarrow> mem" where
  "memcpyb m p_a p_b len =
     (if len \<noteq> 0 then memcpyb (m(p_a := m p_b)) (p_a + 1) (p_b + 1) (len - 1) else m)"
  by pat_completeness auto
termination
  by (relation "measure (\<lambda>(m, a, b, len). unat len)") (auto simp: measure_unat)

function memcpyw :: "mem \<Rightarrow> u32 \<Rightarrow> u32 \<Rightarrow> u32 \<Rightarrow> mem" where
  "memcpyw m p_a p_b len =
     (if len \<noteq> 0 then memcpyw (store16 m p_a (load16 m p_b)) (p_a + 2) (p_b + 2) (len - 1) else m)"
  by pat_completeness auto
termination
  by (relation "measure (\<lambda>(m, a, b, len). unat len)") (auto simp: measure_unat)

definition memcpy :: "mem \<Rightarrow> u32 \<Rightarrow> u32 \<Rightarrow> u32 \<Rightarrow> mem" where
  "memcpy m a b len = memcpyb m a b len"

subsection \<open>String loops\<close>

partial_function (option) strlen_loop :: "mem \<Rightarrow> u32 \<Rightarrow> u32 option" where
  "strlen_loop m p = (if m p \<noteq> 0 then strlen_loop m (p + 1) else Some p)"

definition strlen :: "mem \<Rightarrow> u32 \<Rightarrow> u32 option" where
  "strlen m s = map_option (\<lambda>p. p - s) (strlen_loop m s)"

partial_function (option) strcpy_loop :: "mem \<Rightarrow> u32 \<Rightarrow> u32 \<Rightarrow> mem option" where
  "strcpy_loop m d s =
     (if m s \<noteq> 0 then strcpy_loop (m(d := m s)) (d + 1) (s + 1) else Some (m(d := 0)))"

definition strcpy :: "mem \<Rightarrow> u32 \<Rightarrow> u32 \<Rightarrow> mem option" where
  "strcpy m dst src = strcpy_loop m dst src"

text \<open>A terminated string in memory.\<close>

fun string_at :: "mem \<Rightarrow> u32 \<Rightarrow> u8 list \<Rightarrow> bool" where
  "string_at m p [] \<longleftrightarrow> m p = 0"
| "string_at m p (c # cs) \<longleftrightarrow> m p = c \<and> c \<noteq> 0 \<and> string_at m (p + 1) cs"

declare memsetb.simps [simp del] memsetw.simps [simp del] memcpyb.simps [simp del]
  memcpyw.simps [simp del]

subsection \<open>What the loops compute\<close>

lemma word_dec_less:
  fixes d len :: "'a::len word"
  assumes "len \<noteq> 0"
  shows "d - 1 < len - 1 \<longleftrightarrow> d \<noteq> 0 \<and> d < len"
proof (cases "d = 0")
  case True
  then show ?thesis
    by (simp add: leD)
next
  case False
  have "0 < unat d" "0 < unat len"
    using False assms by (simp_all add: unat_gt_0)
  then show ?thesis
    using False assms by (simp add: word_less_nat_alt unat_minus_one) arith
qed

lemma memsetb_eq: "memsetb m p c len = (\<lambda>a. if a - p < len then c else m a)"
proof (induction m p c len rule: memsetb.induct)
  case (1 m p c len)
  show ?case
  proof (cases "len = 0")
    case True
    then show ?thesis
      by (subst memsetb.simps) simp
  next
    case False
    have "a - (p + 1) < len - 1 \<longleftrightarrow> a \<noteq> p \<and> a - p < len" for a
      using word_dec_less [OF False, of "a - p"] by (simp add: algebra_simps)
    moreover have "0 < len"
      using False by (simp add: word_neq_0_conv)
    moreover have "memsetb (m(p := c)) (p + 1) c (len - 1) =
        (\<lambda>a. if a - (p + 1) < len - 1 then c else (m(p := c)) a)"
      using 1 [OF False] by (simp only: fun_upd_def)
    ultimately show ?thesis
      using False by (subst memsetb.simps) (simp add: fun_eq_iff)
  qed
qed

text \<open>A forward copy is right when the target is the source or starts outside of it.\<close>

lemma memcpyb_eq:
  assumes "a = b \<or> len \<le> a - b"
  shows "memcpyb m a b len = (\<lambda>x. if x - a < len then m (b + (x - a)) else m x)"
  using assms
proof (induction m a b len rule: memcpyb.induct)
  case (1 m a b len)
  show ?case
  proof (cases "len = 0")
    case True
    then show ?thesis
      by (subst memcpyb.simps) simp
  next
    case False
    have lt: "x - (a + 1) < len - 1 \<longleftrightarrow> x \<noteq> a \<and> x - a < len" for x
      using word_dec_less [OF False, of "x - a"] by (simp add: algebra_simps)
    have "len - 1 \<le> len"
      using False by (simp add: word_le_nat_alt unat_minus_one)
    then have "a + 1 = b + 1 \<or> len - 1 \<le> a + 1 - (b + 1)"
      using 1(2) by auto
    from 1(1) [OF False this] have ih: "memcpyb (m(a := m b)) (a + 1) (b + 1) (len - 1) =
        (\<lambda>x. if x - (a + 1) < len - 1 then (m(a := m b)) (b + 1 + (x - (a + 1)))
             else (m(a := m b)) x)"
      by (simp only: fun_upd_def)
    have ne: "b + (x - a) \<noteq> a" if "x \<noteq> a" "x - a < len" for x
    proof
      assume "b + (x - a) = a"
      then have "x - a = a - b"
        by (simp add: algebra_simps)
      then show False
        using that 1(2) by (auto dest: leD)
    qed
    have "0 < len"
      using False by (simp add: word_neq_0_conv)
    then have "(if x - (a + 1) < len - 1 then (m(a := m b)) (b + 1 + (x - (a + 1)))
        else (m(a := m b)) x) = (if x - a < len then m (b + (x - a)) else m x)" for x
      using ne [of x] by (auto simp: lt)
    then show ?thesis
      using False by (subst memcpyb.simps) (simp add: ih)
  qed
qed

lemma strlen_loop_eq:
  "string_at m p cs \<Longrightarrow> strlen_loop m p = Some (p + of_nat (length cs))"
proof (induction cs arbitrary: p)
  case Nil
  then show ?case
    by (subst strlen_loop.simps) simp
next
  case (Cons c cs)
  then show ?case
    by (subst strlen_loop.simps) (simp add: add_ac)
qed

lemma string_at_update:
  assumes "string_at m s cs" "\<And>i. i \<le> length cs \<Longrightarrow> d \<noteq> s + of_nat i"
  shows "string_at (m(d := c)) s cs"
  using assms
proof (induction cs arbitrary: s)
  case Nil
  then show ?case
    using Nil.prems(2) [of 0] by simp
next
  case (Cons x cs)
  have "d \<noteq> s + 1 + of_nat i" if "i \<le> length cs" for i
    using Cons.prems(2) [of "Suc i"] that by (simp add: add_ac)
  then show ?case
    using Cons Cons.prems(2) [of 0] by simp
qed

lemma strcpy_loop_eq:
  assumes "string_at m s cs" "length cs < 2 ^ 32 - 1" "d = s \<or> of_nat (length cs) < d - s"
  shows "strcpy_loop m d s = Some (memcpyb m d s (of_nat (length cs) + 1))"
  using assms
proof (induction cs arbitrary: m d s)
  case Nil
  then show ?case
    by (subst strcpy_loop.simps, subst memcpyb.simps, subst memcpyb.simps) simp
next
  case (Cons c cs)
  have small: "unat (of_nat i :: u32) = i" if "i \<le> Suc (length cs)" for i
    using that Cons.prems(2) by (simp add: unat_of_nat take_bit_nat_eq_self)
  have "d \<noteq> s + 1 + of_nat i" if "i \<le> length cs" for i
  proof
    assume "d = s + 1 + of_nat i"
    then have "d - s = of_nat (Suc i)"
      by simp
    then show False
      using Cons.prems(3) small [of "Suc i"] small [of "length (c # cs)"] that
      by (auto simp: word_less_nat_alt)
  qed
  then have "string_at (m(d := m s)) (s + 1) cs"
    using Cons.prems(1) by (intro string_at_update) auto
  moreover have "of_nat (length cs) < (of_nat (length (c # cs)) :: u32)"
    using small [of "length cs"] small [of "length (c # cs)"] by (simp add: word_less_nat_alt)
  then have "d + 1 = s + 1 \<or> of_nat (length cs) < d + 1 - (s + 1)"
    using Cons.prems(3) by auto
  ultimately have ih: "strcpy_loop (m(d := m s)) (d + 1) (s + 1) =
      Some (memcpyb (m(d := m s)) (d + 1) (s + 1) (of_nat (length cs) + 1))"
    using Cons.prems(2) Cons.IH [of "m(d := m s)" "s + 1" "d + 1"]
    by (simp add: fun_upd_def)
  have "unat (of_nat (Suc (Suc (length cs))) :: u32) = Suc (Suc (length cs)) "
    using Cons.prems(2) by (simp add: unat_of_nat take_bit_nat_eq_self del: of_nat_Suc)
  then have nz: "of_nat (Suc (Suc (length cs))) \<noteq> (0 :: u32)"
    by (metis nat.distinct(1) unat_0)
  have "memcpyb m d s (of_nat (Suc (Suc (length cs)))) =
      memcpyb (m(d := m s)) (d + 1) (s + 1) (of_nat (Suc (Suc (length cs))) - 1)"
    by (subst memcpyb.simps) (simp only: nz if_True not_False_eq_True)
  moreover have "strcpy_loop m d s = strcpy_loop (m(d := m s)) (d + 1) (s + 1)"
    using Cons.prems(1) by (subst strcpy_loop.simps) simp
  ultimately show ?case
    using ih by (simp add: add_ac)
qed

lemma string_at_iff:
  "string_at m p cs \<longleftrightarrow> (\<forall>i < length cs. m (p + of_nat i) = cs ! i \<and> cs ! i \<noteq> 0) \<and>
     m (p + of_nat (length cs)) = 0"
proof (induction cs arbitrary: p)
  case (Cons c cs)
  then show ?case
    by (auto simp: All_less_Suc2 add_ac)
qed simp

text \<open>C33. A copy of a terminated string ends, leaves the string and its length at the target, and
  changes no byte after the terminator, when the target is the source itself or does not start
  inside it.\<close>

theorem strcpy_copies:
  assumes "string_at m src cs" "length cs < 2 ^ 32 - 1" "dst = src \<or> of_nat (length cs) < dst - src"
  shows "\<exists>m'. strcpy m dst src = Some m' \<and> string_at m' dst cs \<and>
     strlen m' dst = Some (of_nat (length cs)) \<and>
     (\<forall>x. of_nat (length cs) < x - dst \<longrightarrow> m' x = m x)"
proof -
  let ?n = "of_nat (length cs) :: u32"
  have small: "unat (of_nat i :: u32) = i" if "i \<le> Suc (length cs)" for i
    using that assms(2) by (simp add: unat_of_nat take_bit_nat_eq_self)
  have n1: "unat (?n + 1) = Suc (length cs)"
    using small [of "Suc (length cs)"] by (simp add: add.commute)
  have lt: "w < ?n + 1 \<longleftrightarrow> w \<le> ?n" for w
    by (simp add: word_less_nat_alt word_le_nat_alt n1 small less_Suc_eq_le)
  have eq: "memcpyb m dst src (?n + 1) = (\<lambda>x. if x - dst < ?n + 1 then m (src + (x - dst)) else m x)"
  proof (rule memcpyb_eq)
    show "dst = src \<or> ?n + 1 \<le> dst - src"
      using assms(3) by (auto simp: word_less_nat_alt word_le_nat_alt n1 small)
  qed
  define m' where "m' = memcpyb m dst src (?n + 1)"
  have le: "of_nat i \<le> ?n" if "i \<le> length cs" for i
    using that by (simp add: word_le_nat_alt small)
  have "m' (dst + of_nat i) = m (src + of_nat i)" if "i \<le> length cs" for i
    using le [OF that] by (simp add: m'_def eq lt)
  then have at: "string_at m' dst cs"
    using assms(1) by (simp add: string_at_iff)
  have "m' x = m x" if "?n < x - dst" for x
    using that by (auto simp: m'_def eq lt dest: leD)
  moreover have "strcpy m dst src = Some m'"
    by (simp add: strcpy_def m'_def strcpy_loop_eq [OF assms])
  moreover have "strlen m' dst = Some ?n"
    by (simp add: strlen_def strlen_loop_eq [OF at])
  ultimately show ?thesis
    using at by blast
qed

theorem strcpy_copies_witness:
  "\<exists>m'. strcpy ((\<lambda>_. 0)(100 := 72, 101 := 105)) 200 100 = Some m' \<and> string_at m' 200 [72, 105] \<and>
     strlen m' 200 = Some 2"
  using strcpy_copies [of "(\<lambda>_. 0)(100 := 72, 101 := 105)" 100 "[72, 105]" 200]
  by (auto simp: word_less_nat_alt)

text \<open>C34. A byte copy puts the bytes of the source at the target, first to last, and changes nothing
  else, when the target starts outside the source or is the source itself; a fill stores its byte
  in exactly the given range. Ranges may run over the end of the address space.\<close>

theorem memcpy_memset_exact:
  assumes "a = b \<or> len \<le> a - b"
  shows "memcpy m a b len = (\<lambda>x. if x - a < len then m (b + (x - a)) else m x) \<and>
     memset m a v len = (\<lambda>x. if x - a < len then ucast v else m x)"
  using assms by (simp add: memcpy_def memset_def memcpyb_eq memsetb_eq)

theorem memcpy_memset_exact_witness:
  "memcpy ((\<lambda>_. 0)(100 := 7)) 200 100 4 200 = 7 \<and> memset (\<lambda>_. 0) 200 0x101 4 203 = 1"
  using memcpy_memset_exact [of 200 100 4] by (simp add: word_le_nat_alt word_less_nat_alt)

end
