(* ===== verification/Sampling.thy ===== *)
theory Sampling
  imports Clock "HOL-Library.Multiset"
begin

text \<open>
  The measurement of main.c: the interrupt handlers that capture the clock, the state machine that
  do_sampling runs once per frame, and the ring of recorded samples. The state is the record of the
  globals of main.c on top of the clock hardware.
\<close>

subsection \<open>State\<close>

datatype State = ST_CLEAR | ST_WAIT_CLEAR | ST_START_SAMPLE | ST_WAIT_SAMPLE | ST_END_SAMPLE

datatype SampleStatus = NO_SAMPLE | NEW_SAMPLE | MISSING_SAMPLE

record sampler = clock_hw +
  vblank_int_count :: u32
  sample_seq :: u16
  frame_seq :: u16
  sensor_seq :: u16
  frame_ticks :: u32
  sensor_ticks :: u32
  state :: State
  state_start_ticks :: u32
  samples :: "u32 list"
  latest_sample :: u32
  sample_idx :: u32
  sample_status :: SampleStatus
  palette_ram :: "nat \<Rightarrow> u16"

definition HISTORY_SIZE :: u32 where "HISTORY_SIZE = 16"

definition WAIT_CLEAR_TICKS :: u32 where "WAIT_CLEAR_TICKS = CLOCK_MS_TO_TICKS 200"
definition MIN_SAMPLE_TICKS :: u32 where "MIN_SAMPLE_TICKS = CLOCK_MS_TO_TICKS 200"
definition MAX_SAMPLE_TICKS :: u32 where "MAX_SAMPLE_TICKS = CLOCK_MS_TO_TICKS 500"

subsection \<open>Interrupt handlers\<close>

definition level2_handler :: "'a sampler_scheme \<Rightarrow> 'a sampler_scheme" where
  "level2_handler s = s\<lparr>vblank_int_count := vblank_int_count s + 1\<rparr>"

definition level4_handler :: "'a sampler_scheme \<Rightarrow> 'a sampler_scheme" where
  "level4_handler s =
     (if frame_seq s \<noteq> sample_seq s
      then let (t, s1) = clock_get_ticks s;
               s2 = s1\<lparr>frame_ticks := t\<rparr>
           in s2\<lparr>frame_seq := sample_seq s2\<rparr>
      else s)"

definition level6_handler :: "'a sampler_scheme \<Rightarrow> 'a sampler_scheme" where
  "level6_handler s =
     (if sensor_seq s \<noteq> sample_seq s
      then let (t, s1) = clock_get_ticks s;
               s2 = s1\<lparr>sensor_ticks := t\<rparr>
           in s2\<lparr>sensor_seq := sample_seq s2\<rparr>
      else s)"

subsection \<open>The sampling state machine\<close>

definition set_state :: "State \<Rightarrow> 'a sampler_scheme \<Rightarrow> 'a sampler_scheme" where
  "set_state st s =
     (let s1 = s\<lparr>state := st\<rparr>;
          (t, s2) = clock_get_ticks s1
      in s2\<lparr>state_start_ticks := t\<rparr>)"

definition record_new_sample :: "u32 \<Rightarrow> 'a sampler_scheme \<Rightarrow> 'a sampler_scheme" where
  "record_new_sample t s =
     s\<lparr>latest_sample := t,
       samples := (samples s)[unat (sample_idx s mod HISTORY_SIZE) := t],
       sample_idx := sample_idx s + 1,
       sample_status := NEW_SAMPLE\<rparr>"

definition record_missing_sample :: "'a sampler_scheme \<Rightarrow> 'a sampler_scheme" where
  "record_missing_sample s = s\<lparr>sample_status := MISSING_SAMPLE\<rparr>"

definition write_palette :: "nat \<Rightarrow> u16 \<Rightarrow> 'a sampler_scheme \<Rightarrow> 'a sampler_scheme" where
  "write_palette i v s = s\<lparr>palette_ram := (palette_ram s)(i := v)\<rparr>"

text \<open>The switch of do_sampling, with the clock read in front of it.\<close>

definition do_sampling_switch :: "'a sampler_scheme \<Rightarrow> 'a sampler_scheme" where
  "do_sampling_switch s0 =
     (let (cur_ticks, s) = clock_get_ticks s0;
          state_ticks = cur_ticks - state_start_ticks s
      in case state s of
           ST_CLEAR \<Rightarrow> set_state ST_WAIT_CLEAR (write_palette 0x80 0 s)
         | ST_WAIT_CLEAR \<Rightarrow>
             if state_ticks \<ge> WAIT_CLEAR_TICKS then set_state ST_START_SAMPLE s else s
         | ST_START_SAMPLE \<Rightarrow>
             let s1 = write_palette 0x80 0xffff (set_state ST_WAIT_SAMPLE s)
             in s1\<lparr>sample_seq := sample_seq s1 + 1\<rparr>
         | ST_WAIT_SAMPLE \<Rightarrow>
             if state_ticks < MIN_SAMPLE_TICKS then s
             else if state_ticks > MAX_SAMPLE_TICKS
             then record_missing_sample (set_state ST_CLEAR s)
             else if sample_seq s = frame_seq s \<and> sample_seq s = sensor_seq s
             then let s1 = set_state ST_CLEAR s
                  in if frame_ticks s1 \<ge> sensor_ticks s1 then record_missing_sample s1
                     else record_new_sample (sensor_ticks s1 - frame_ticks s1) s1
             else s
         | ST_END_SAMPLE \<Rightarrow> set_state ST_CLEAR s)"

text \<open>The globals as the loader leaves them; the clock and the status register are the machine's.\<close>

definition sampler_init :: "u16 \<Rightarrow> u32 \<Rightarrow> sampler" where
  "sampler_init sr0 t0 =
     \<lparr>sr = sr0, ticks = t0, ticks_latch = 0, vblank_int_count = 0, sample_seq = 0, frame_seq = 0,
      sensor_seq = 0, frame_ticks = 0, sensor_ticks = 0, state = ST_CLEAR, state_start_ticks = 0,
      samples = replicate 16 0, latest_sample = 0, sample_idx = 0, sample_status = NO_SAMPLE,
      palette_ram = (\<lambda>_. 0)\<rparr>"

text \<open>An interrupt served to its end: the return from exception restores the status register.\<close>

definition interrupt :: "nat \<Rightarrow> 'a sampler_scheme \<Rightarrow> 'a sampler_scheme" where
  "interrupt n s =
     (if n = 2 then level2_handler s else if n = 4 then level4_handler s else level6_handler s)
       \<lparr>sr := sr s\<rparr>"

text \<open>One frame: time passes, interrupts are served, do_sampling runs.\<close>

definition frame_poll :: "u32 \<times> nat list \<Rightarrow> 'a sampler_scheme \<Rightarrow> 'a sampler_scheme" where
  "frame_poll f s = (case f of (dt, irqs) \<Rightarrow>
     do_sampling_switch (fold interrupt irqs (s\<lparr>ticks := ticks s + dt\<rparr>)))"

definition frames_time :: "(u32 \<times> nat list) list \<Rightarrow> nat" where
  "frames_time fs = (\<Sum>f \<leftarrow> fs. unat (fst f))"

text \<open>Time a sequence of frames takes, and time spent in the current state.\<close>

definition elapsed :: "'a sampler_scheme \<Rightarrow> u32" where
  "elapsed s = ticks s - state_start_ticks s"

text \<open>The number of slots update_sample_status reads.\<close>

definition history_len :: "'a sampler_scheme \<Rightarrow> nat" where
  "history_len s = unat (if HISTORY_SIZE > sample_idx s then sample_idx s else HISTORY_SIZE)"

lemmas sample_time_defs = WAIT_CLEAR_TICKS_def MIN_SAMPLE_TICKS_def MAX_SAMPLE_TICKS_def
  CLOCK_MS_TO_TICKS_def CLOCK_REF_KHZ_def

lemmas sampler_defs = set_state_def record_new_sample_def record_missing_sample_def
  write_palette_def clock_get_ticks_eq

lemmas handler_defs = level2_handler_def level4_handler_def level6_handler_def clock_get_ticks_eq

subsection \<open>The ring of samples\<close>

text \<open>The ring holds a history when each of the last sixteen samples is in its slot.\<close>

definition ring :: "u32 list \<Rightarrow> u32 list \<Rightarrow> bool" where
  "ring h xs \<longleftrightarrow> length xs = 16 \<and>
     (\<forall>j < length h. length h \<le> j + 16 \<longrightarrow> xs ! (j mod 16) = h ! j)"

lemma ring_snoc:
  assumes "ring h xs"
  shows "ring (h @ [x]) (xs[length h mod 16 := x])"
proof -
  have "xs[length h mod 16 := x] ! (j mod 16) = (h @ [x]) ! j"
    if "j < Suc (length h)" "Suc (length h) \<le> j + 16" for j
  proof (cases "j = length h")
    case True
    then show ?thesis
      using assms by (simp add: ring_def)
  next
    case False
    then have "j < length h" "length h - j < 16"
      using that by auto
    then have "length h mod 16 \<noteq> j mod 16"
      using mod_eq_dvd_iff_nat [of j "length h" 16] by (auto dest: dvd_imp_le)
    then show ?thesis
      using assms that \<open>j < length h\<close> by (simp add: ring_def nth_append)
  qed
  then show ?thesis
    using assms by (simp add: ring_def)
qed

lemma mset_rotate1 [simp]: "mset (rotate1 xs) = mset xs"
  by (cases xs) simp_all

lemma ring_recent:
  assumes "ring h xs"
  shows "mset (take (length h) xs) = mset (drop (length h - 16) h)"
proof (cases "length h \<le> 16")
  case True
  then have "take (length h) xs = h"
    using assms by (intro nth_equalityI) (auto simp: ring_def)
  then show ?thesis
    using True by simp
next
  case False
  have "drop (length h - 16) h = rotate (length h) xs"
  proof (rule nth_equalityI)
    fix i
    assume i: "i < length (drop (length h - 16) h)"
    then have "xs ! ((length h - 16 + i) mod 16) = h ! (length h - 16 + i)"
      using assms False by (simp add: ring_def)
    moreover have "(length h - 16 + i) mod 16 = (length h + i) mod 16"
      using mod_add_self2 [of "length h - 16 + i" 16] False by simp
    ultimately show "drop (length h - 16) h ! i = rotate (length h) xs ! i"
      using assms i False by (simp add: ring_def nth_rotate)
  qed (use assms False in \<open>simp add: ring_def\<close>)
  moreover have "mset (rotate n xs) = mset xs" for n
    by (induction n) (simp_all add: rotate_def)
  ultimately show ?thesis
    using assms False by (simp add: ring_def)
qed

lemma record_all:
  assumes "length h < 2 ^ 32" "samples s = replicate 16 0" "sample_idx s = 0"
  shows "ring h (samples (fold record_new_sample h s)) \<and>
    sample_idx (fold record_new_sample h s) = of_nat (length h) \<and>
    (h \<noteq> [] \<longrightarrow> latest_sample (fold record_new_sample h s) = last h)"
  using assms(1)
proof (induction h rule: rev_induct)
  case Nil
  then show ?case
    using assms by (simp add: ring_def)
next
  case (snoc x h)
  then have "unat (of_nat (length h) mod HISTORY_SIZE) = length h mod 16"
    by (simp add: HISTORY_SIZE_def unat_mod unat_of_nat take_bit_nat_eq_self)
  then show ?case
    using snoc ring_snoc [of h] by (simp add: record_new_sample_def add.commute)
qed

lemma history_len_take:
  assumes "length (samples s) = 16" "sample_idx s = of_nat n" "n < 2 ^ 32"
  shows "take (history_len s) (samples s) = take n (samples s)"
proof -
  have "unat (of_nat n :: u32) = n"
    using assms(3) by (simp add: unat_of_nat take_bit_nat_eq_self)
  then show ?thesis
    using assms(1,2) by (simp add: history_len_def HISTORY_SIZE_def word_less_nat_alt)
qed

text \<open>C25. The ring of samples refines the list of all samples recorded since power up: the
  slots that update_sample_status reads hold the last sixteen of them, each once and in some order,
  and the latest sample is the last one.\<close>

theorem history_keeps_last_samples:
  assumes "length h < 2 ^ 32"
  shows "case fold record_new_sample h (sampler_init w t) of s \<Rightarrow>
     mset (take (history_len s) (samples s)) = mset (drop (length h - 16) h) \<and>
     (h \<noteq> [] \<longrightarrow> latest_sample s = last h)"
proof -
  have r: "ring h (samples (fold record_new_sample h (sampler_init w t)))"
    "sample_idx (fold record_new_sample h (sampler_init w t)) = of_nat (length h)"
    "h \<noteq> [] \<longrightarrow> latest_sample (fold record_new_sample h (sampler_init w t)) = last h"
    using record_all [OF assms(1), of "sampler_init w t"] by (simp_all add: sampler_init_def)
  then show ?thesis
    using history_len_take [OF _ r(2) assms] ring_recent [OF r(1)] by (simp add: ring_def)
qed

theorem history_keeps_last_samples_witness:
  "case fold record_new_sample (map of_nat [0..<20]) (sampler_init 0 0) of s \<Rightarrow>
     mset (take (history_len s) (samples s)) = mset (map of_nat [4..<20]) \<and> latest_sample s = 19"
  using history_keeps_last_samples [of "map of_nat [0..<20]" 0 0] by (simp add: upt_rec)


subsection \<open>Progress\<close>

lemma interrupt_frame [simp]:
  "state (interrupt n s) = state s" "state_start_ticks (interrupt n s) = state_start_ticks s"
  "ticks (interrupt n s) = ticks s"
  by (simp_all add: interrupt_def handler_defs Let_def)

lemma fold_interrupt_frame [simp]:
  "state (fold interrupt ns s) = state s"
  "state_start_ticks (fold interrupt ns s) = state_start_ticks s"
  "ticks (fold interrupt ns s) = ticks s"
  by (induction ns arbitrary: s) simp_all

lemma below_min_sample: "w < MIN_SAMPLE_TICKS \<Longrightarrow> w \<le> MAX_SAMPLE_TICKS"
  by (simp add: sample_time_defs word_le_nat_alt word_less_nat_alt)

lemma switch_clear:
  "state s = ST_CLEAR \<Longrightarrow>
     state (do_sampling_switch s) = ST_WAIT_CLEAR \<and> elapsed (do_sampling_switch s) = 0"
  by (simp add: do_sampling_switch_def sampler_defs elapsed_def Let_def)

lemma switch_wait_clear:
  "state s = ST_WAIT_CLEAR \<Longrightarrow>
     state (do_sampling_switch s) = ST_START_SAMPLE \<or>
     unat (elapsed s) < 2000000 \<and> state (do_sampling_switch s) = ST_WAIT_CLEAR \<and>
       elapsed (do_sampling_switch s) = elapsed s"
  by (simp add: do_sampling_switch_def sampler_defs elapsed_def Let_def sample_time_defs
      word_le_nat_alt)

lemma switch_start_sample:
  "state s = ST_START_SAMPLE \<Longrightarrow>
     state (do_sampling_switch s) = ST_WAIT_SAMPLE \<and> elapsed (do_sampling_switch s) = 0"
  by (simp add: do_sampling_switch_def sampler_defs elapsed_def Let_def)

lemma switch_wait_sample:
  assumes "state s = ST_WAIT_SAMPLE"
  shows "state (do_sampling_switch s) = ST_CLEAR \<and> sample_status (do_sampling_switch s) \<noteq> NO_SAMPLE \<or>
     unat (elapsed s) < 5000001 \<and> state (do_sampling_switch s) = ST_WAIT_SAMPLE \<and>
       elapsed (do_sampling_switch s) = elapsed s"
proof -
  have "state (do_sampling_switch s) = ST_CLEAR \<and> sample_status (do_sampling_switch s) \<noteq> NO_SAMPLE \<or>
     elapsed s \<le> MAX_SAMPLE_TICKS \<and> state (do_sampling_switch s) = ST_WAIT_SAMPLE \<and>
       elapsed (do_sampling_switch s) = elapsed s"
    using assms by (auto simp: do_sampling_switch_def sampler_defs elapsed_def Let_def below_min_sample)
  then show ?thesis
    by (auto simp: sample_time_defs word_le_nat_alt)
qed

lemma frame_poll_switch: "\<exists>m. frame_poll f s = do_sampling_switch m \<and> state m = state s"
  by (auto simp: frame_poll_def split: prod.split
      intro!: exI [of _ "fold interrupt (snd f) (s\<lparr>ticks := ticks s + fst f\<rparr>)"])

text \<open>A state that is left when its time is up is left while the frames fill that time.\<close>

lemma wait_phase:
  fixes s :: "'a sampler_scheme"
  assumes stay: "\<And>s :: 'a sampler_scheme. state s = q \<Longrightarrow> Q (do_sampling_switch s) \<or>
      unat (elapsed s) < L \<and> state (do_sampling_switch s) = q \<and>
      elapsed (do_sampling_switch s) = elapsed s"
    and "\<forall>f \<in> set fs. unat (fst f) \<le> p" "p + L \<le> 2 ^ 32"
    and "state s = q" "unat (elapsed s) < L" "L \<le> unat (elapsed s) + frames_time fs"
  shows "\<exists>fs1 f fs2. fs = fs1 @ f # fs2 \<and> state (fold frame_poll fs1 s) = q \<and>
    Q (frame_poll f (fold frame_poll fs1 s)) \<and>
    unat (elapsed s) + frames_time (fs1 @ [f]) \<le> L + p"
  using assms(2-)
proof (induction fs arbitrary: s)
  case Nil
  then show ?case
    by (simp add: frames_time_def)
next
  case (Cons f fs)
  let ?m = "fold interrupt (snd f) (s\<lparr>ticks := ticks s + fst f\<rparr>)"
  let ?s = "frame_poll f s"
  have s: "?s = do_sampling_switch ?m" "state ?m = q"
    using Cons.prems by (simp_all add: frame_poll_def split: prod.split)
  have "elapsed ?m = elapsed s + fst f"
    by (simp add: elapsed_def algebra_simps)
  moreover have "unat (elapsed s) + unat (fst f) < 2 ^ LENGTH(32)"
    using Cons.prems by simp
  ultimately have e: "unat (elapsed ?m) = unat (elapsed s) + unat (fst f)"
    by (simp only: unat_add_lem)
  from stay [OF s(2)] show ?case
  proof
    assume "Q (do_sampling_switch ?m)"
    then show ?thesis
      using Cons.prems
      by (intro exI [of _ "[]"] exI [of _ f] exI [of _ fs]) (simp add: s frames_time_def)
  next
    assume a: "unat (elapsed ?m) < L \<and> state (do_sampling_switch ?m) = q \<and>
      elapsed (do_sampling_switch ?m) = elapsed ?m"
    then have "\<exists>fs1 g fs2. fs = fs1 @ g # fs2 \<and> state (fold frame_poll fs1 ?s) = q \<and>
        Q (frame_poll g (fold frame_poll fs1 ?s)) \<and>
        unat (elapsed ?s) + frames_time (fs1 @ [g]) \<le> L + p"
      using Cons.prems e by (intro Cons.IH) (simp_all add: s frames_time_def)
    then obtain fs1 g fs2 where g: "fs = fs1 @ g # fs2" "state (fold frame_poll fs1 ?s) = q"
        "Q (frame_poll g (fold frame_poll fs1 ?s))"
        "unat (elapsed ?s) + frames_time (fs1 @ [g]) \<le> L + p"
      by blast
    then show ?thesis
      using a e
      by (intro exI [of _ "f # fs1"] exI [of _ g] exI [of _ fs2]) (simp add: s frames_time_def)
  qed
qed

lemma wait_clear_phase:
  assumes "\<forall>f \<in> set fs. unat (fst f) \<le> p" "p + 5000001 \<le> 2 ^ 32"
    and "state s = ST_WAIT_CLEAR" "elapsed s = 0" "2000000 \<le> frames_time fs"
  obtains fs1 fs2 where "fs = fs1 @ fs2" "state (fold frame_poll fs1 s) = ST_START_SAMPLE"
    "frames_time fs1 \<le> 2000000 + p"
proof -
  have "\<exists>fs1 f fs2. fs = fs1 @ f # fs2 \<and> state (fold frame_poll fs1 s) = ST_WAIT_CLEAR \<and>
    state (frame_poll f (fold frame_poll fs1 s)) = ST_START_SAMPLE \<and>
    unat (elapsed s) + frames_time (fs1 @ [f]) \<le> 2000000 + p"
    by (rule wait_phase [where Q = "\<lambda>s. state s = ST_START_SAMPLE"])
      (use assms switch_wait_clear in auto)
  then obtain fs1 f fs2 where "fs = (fs1 @ [f]) @ fs2"
      "state (frame_poll f (fold frame_poll fs1 s)) = ST_START_SAMPLE"
      "unat (elapsed s) + frames_time (fs1 @ [f]) \<le> 2000000 + p"
    by auto
  then show ?thesis
    using that [of "fs1 @ [f]" fs2] by simp
qed

lemma wait_sample_phase:
  assumes "\<forall>f \<in> set fs. unat (fst f) \<le> p" "p + 5000001 \<le> 2 ^ 32"
    and "state s = ST_WAIT_SAMPLE" "elapsed s = 0" "5000001 \<le> frames_time fs"
  obtains fs1 f fs2 where "fs = fs1 @ f # fs2" "state (fold frame_poll fs1 s) = ST_WAIT_SAMPLE"
    "state (frame_poll f (fold frame_poll fs1 s)) = ST_CLEAR"
    "sample_status (frame_poll f (fold frame_poll fs1 s)) \<noteq> NO_SAMPLE"
proof -
  have "\<exists>fs1 f fs2. fs = fs1 @ f # fs2 \<and> state (fold frame_poll fs1 s) = ST_WAIT_SAMPLE \<and>
    (state (frame_poll f (fold frame_poll fs1 s)) = ST_CLEAR \<and>
      sample_status (frame_poll f (fold frame_poll fs1 s)) \<noteq> NO_SAMPLE) \<and>
    unat (elapsed s) + frames_time (fs1 @ [f]) \<le> 5000001 + p"
    by (rule wait_phase [where Q = "\<lambda>s. state s = ST_CLEAR \<and> sample_status s \<noteq> NO_SAMPLE"])
      (use assms switch_wait_sample in auto)
  then show ?thesis
    using that by blast
qed

text \<open>Sampling always makes progress: from the clear state, whatever interrupts are served
  in between, a sequence of frames that lasts long enough contains a frame in which the state
  machine leaves the wait for a sample, back to the clear state, having recorded a new or a missing
  sample. Frames may be any length up to 400 seconds.\<close>

lemma sampling_always_decides:
  assumes "state s = ST_CLEAR" "\<forall>f \<in> set fs. unat (fst f) \<le> p" "p \<le> 4000000000"
    and "7000001 + 3 * p \<le> frames_time fs"
  shows "\<exists>fs1 f fs2. fs = fs1 @ f # fs2 \<and>
     state (fold frame_poll fs1 s) = ST_WAIT_SAMPLE \<and>
     state (frame_poll f (fold frame_poll fs1 s)) = ST_CLEAR \<and>
     sample_status (frame_poll f (fold frame_poll fs1 s)) \<noteq> NO_SAMPLE"
proof -
  obtain f0 fs0 where fs: "fs = f0 # fs0"
    using assms(4) by (cases fs) (auto simp: frames_time_def)
  define s1 where "s1 = frame_poll f0 s"
  have s1: "state s1 = ST_WAIT_CLEAR" "elapsed s1 = 0"
    using frame_poll_switch [of f0 s] assms(1) by (auto simp: s1_def switch_clear)
  have f0: "unat (fst f0) \<le> p" and t0: "7000001 + 2 * p \<le> frames_time fs0"
    using assms by (auto simp: fs frames_time_def)
  obtain fs1 fs2 where fs0: "fs0 = fs1 @ fs2" and
    s2: "state (fold frame_poll fs1 s1) = ST_START_SAMPLE" and t1: "frames_time fs1 \<le> 2000000 + p"
    by (rule wait_clear_phase [of fs0 p s1]) (use assms s1 t0 fs in auto)
  define s2 where "s2 = fold frame_poll fs1 s1"
  have t2: "5000001 + p \<le> frames_time fs2"
    using t0 t1 by (simp add: fs0 frames_time_def)
  obtain f3 fs3 where fs2: "fs2 = f3 # fs3"
    using t2 by (cases fs2) (auto simp: frames_time_def)
  define s3 where "s3 = frame_poll f3 s2"
  have s3: "state s3 = ST_WAIT_SAMPLE" "elapsed s3 = 0"
    using frame_poll_switch [of f3 s2] s2 by (auto simp: s3_def s2_def switch_start_sample)
  have "unat (fst f3) \<le> p"
    using assms(2) by (simp add: fs fs0 fs2)
  then have t3: "5000001 \<le> frames_time fs3"
    using t2 by (simp add: fs2 frames_time_def)
  obtain fs4 f fs5 where f: "fs3 = fs4 @ f # fs5" "state (fold frame_poll fs4 s3) = ST_WAIT_SAMPLE"
    "state (frame_poll f (fold frame_poll fs4 s3)) = ST_CLEAR"
    "sample_status (frame_poll f (fold frame_poll fs4 s3)) \<noteq> NO_SAMPLE"
    by (rule wait_sample_phase [of fs3 p s3]) (use assms s3 t3 in \<open>auto simp: fs fs0 fs2\<close>)
  then show ?thesis
    by (intro exI [of _ "f0 # fs1 @ f3 # fs4"] exI [of _ f] exI [of _ fs5])
      (simp add: fs fs0 fs2 s1_def s2_def s3_def)
qed

lemma sampling_always_decides_witness:
  "\<exists>fs1 f fs2. replicate 100 (166667, [2, 4]) = fs1 @ f # fs2 \<and>
     state (fold frame_poll fs1 (sampler_init 0 0)) = ST_WAIT_SAMPLE \<and>
     state (frame_poll f (fold frame_poll fs1 (sampler_init 0 0))) = ST_CLEAR \<and>
     sample_status (frame_poll f (fold frame_poll fs1 (sampler_init 0 0))) \<noteq> NO_SAMPLE"
  by (rule sampling_always_decides [where p = 166667])
    (simp_all add: sampler_init_def frames_time_def sum_list_replicate map_replicate_const)

end
