(* ===== verification/Sampling_Interleaving.thy ===== *)
theory Sampling_Interleaving
  imports Sampling
begin

text \<open>
  The measurement of main.c with its interrupts interleaved. The main program and every active
  handler advance in steps no longer than the accesses they share; the clock may tick and an
  interrupt above the mask may be taken between any two of them, also inside a handler, because
  reading the clock clears the mask. A run collects a trace of events, newest first.
\<close>

subsection \<open>Configurations\<close>

datatype hpc = H_check | H_read | H_store u32 | H_mark | H_rte

datatype activation = Act (act_level: nat) (act_pc: hpc) (act_sr: u16)

datatype mpc = M_idle | M_switch u32 | M_bump | M_sensor | M_clear | M_cmp | M_cmp2 u32 | M_diff
  | M_diff2 u32

record cfg = sampler +
  now :: nat                  \<comment> \<open>ticks since power up, without the wrap of the counter\<close>
  mpc :: mpc
  stack :: "activation list"

datatype event = Tick | Take nat bool | Read nat nat | Mark nat | Start | Accept u32 | Miss | Quiet

subsection \<open>Steps\<close>

text \<open>The status register when an interrupt of a level is taken: supervisor, no trace, the mask
  raised to the level.\<close>

definition exception_sr :: "nat \<Rightarrow> u16 \<Rightarrow> u16" where
  "exception_sr n w = (w AND 0x78ff) OR 0x2000 OR push_bit 8 (of_nat n)"

text \<open>One step of the body of a handler: the event, where it continues and the new state.\<close>

fun handler_step :: "nat \<Rightarrow> hpc \<Rightarrow> cfg \<Rightarrow> event \<times> hpc \<times> cfg" where
  "handler_step n H_check c =
     (if n = 2 then (Quiet, H_rte, level2_handler c)
      else if n = 4 then (Quiet, if frame_seq c \<noteq> sample_seq c then H_read else H_rte, c)
      else (Quiet, if sensor_seq c \<noteq> sample_seq c then H_read else H_rte, c))"
| "handler_step n H_read c =
     (let (t, c1) = clock_get_ticks c in (Read n (now c), H_store t, c1))"
| "handler_step n (H_store t) c =
     (Quiet, H_mark,
      if n = 4 then c\<lparr>frame_ticks := t\<rparr> else if n = 6 then c\<lparr>sensor_ticks := t\<rparr> else c)"
| "handler_step n H_mark c =
     (Mark n, H_rte,
      if n = 4 then c\<lparr>frame_seq := sample_seq c\<rparr>
      else if n = 6 then c\<lparr>sensor_seq := sample_seq c\<rparr> else c)"
| "handler_step n H_rte c = (Quiet, H_rte, c)"

text \<open>The return from exception restores the status register the handler was entered with.\<close>

definition stack_step :: "activation \<Rightarrow> activation list \<Rightarrow> cfg \<Rightarrow> event \<times> cfg" where
  "stack_step a st c =
     (if act_pc a = H_rte then (Quiet, c\<lparr>stack := st, sr := act_sr a\<rparr>)
      else case handler_step (act_level a) (act_pc a) c of
        (e, pc, c1) \<Rightarrow> (e, c1\<lparr>stack := Act (act_level a) pc (act_sr a) # st\<rparr>))"

text \<open>One step of do_sampling up to the end of its switch; idle is the rest of the main loop.\<close>

definition switch_step :: "u32 \<Rightarrow> cfg \<Rightarrow> event \<times> cfg" where
  "switch_step cur_ticks c =
     (let state_ticks = cur_ticks - state_start_ticks c
      in case state c of
           ST_CLEAR \<Rightarrow>
             (Quiet, (set_state ST_WAIT_CLEAR (write_palette 0x80 0 c))\<lparr>mpc := M_idle\<rparr>)
         | ST_WAIT_CLEAR \<Rightarrow>
             (Quiet, (if state_ticks \<ge> WAIT_CLEAR_TICKS then set_state ST_START_SAMPLE c
                      else c)\<lparr>mpc := M_idle\<rparr>)
         | ST_START_SAMPLE \<Rightarrow>
             (Quiet, (write_palette 0x80 0xffff (set_state ST_WAIT_SAMPLE c))\<lparr>mpc := M_bump\<rparr>)
         | ST_WAIT_SAMPLE \<Rightarrow>
             if state_ticks < MIN_SAMPLE_TICKS then (Quiet, c\<lparr>mpc := M_idle\<rparr>)
             else if state_ticks > MAX_SAMPLE_TICKS
             then (Miss, (record_missing_sample (set_state ST_CLEAR c))\<lparr>mpc := M_idle\<rparr>)
             else if sample_seq c = frame_seq c then (Quiet, c\<lparr>mpc := M_sensor\<rparr>)
             else (Quiet, c\<lparr>mpc := M_idle\<rparr>)
         | ST_END_SAMPLE \<Rightarrow> (Quiet, (set_state ST_CLEAR c)\<lparr>mpc := M_idle\<rparr>))"

definition main_step :: "cfg \<Rightarrow> event \<times> cfg" where
  "main_step c =
     (case mpc c of
        M_idle \<Rightarrow> (case clock_get_ticks c of (t, c1) \<Rightarrow> (Quiet, c1\<lparr>mpc := M_switch t\<rparr>))
      | M_switch t \<Rightarrow> switch_step t c
      | M_bump \<Rightarrow> (Start, c\<lparr>sample_seq := sample_seq c + 1, mpc := M_idle\<rparr>)
      | M_sensor \<Rightarrow> (Quiet, c\<lparr>mpc := (if sample_seq c = sensor_seq c then M_clear else M_idle)\<rparr>)
      | M_clear \<Rightarrow> (Quiet, (set_state ST_CLEAR c)\<lparr>mpc := M_cmp\<rparr>)
      | M_cmp \<Rightarrow> (Quiet, c\<lparr>mpc := M_cmp2 (frame_ticks c)\<rparr>)
      | M_cmp2 f \<Rightarrow>
          if f \<ge> sensor_ticks c then (Miss, (record_missing_sample c)\<lparr>mpc := M_idle\<rparr>)
          else (Quiet, c\<lparr>mpc := M_diff\<rparr>)
      | M_diff \<Rightarrow> (Quiet, c\<lparr>mpc := M_diff2 (sensor_ticks c)\<rparr>)
      | M_diff2 r \<Rightarrow>
          let d = r - frame_ticks c in (Accept d, (record_new_sample d c)\<lparr>mpc := M_idle\<rparr>))"

definition take_interrupt :: "nat \<Rightarrow> cfg \<Rightarrow> cfg" where
  "take_interrupt n c =
     c\<lparr>stack := Act n H_check (sr c) # stack c, sr := exception_sr n (sr c)\<rparr>"

definition reentrant :: "nat \<Rightarrow> cfg \<Rightarrow> bool" where
  "reentrant n c \<longleftrightarrow> n \<in> act_level ` set (stack c)"

inductive step :: "cfg \<Rightarrow> event \<Rightarrow> cfg \<Rightarrow> bool" where
  tick: "step c Tick (c\<lparr>now := Suc (now c), ticks := ticks c + 1\<rparr>)"
| irq: "n \<in> {2, 4, 6} \<Longrightarrow> ipl c < n \<Longrightarrow> step c (Take n (reentrant n c)) (take_interrupt n c)"
| handler: "stack c = a # st \<Longrightarrow> stack_step a st c = (e, c') \<Longrightarrow> step c e c'"
| main: "stack c = [] \<Longrightarrow> main_step c = (e, c') \<Longrightarrow> step c e c'"

inductive_cases stepE: "step c e c'"

text \<open>Power up at some clock value, and the runs from there with their traces.\<close>

definition cfg_init :: "u16 \<Rightarrow> nat \<Rightarrow> cfg" where
  "cfg_init w t0 = sampler.extend (sampler_init w (of_nat t0)) \<lparr>now = t0, mpc = M_idle, stack = []\<rparr>"

inductive run :: "event list \<Rightarrow> cfg \<Rightarrow> bool" where
  start: "run [] (cfg_init w t0)"
| more: "run tr c \<Longrightarrow> step c e c' \<Longrightarrow> run (e # tr) c'"

subsection \<open>Reading a trace\<close>

text \<open>The events since the last sample was started; the first reading a handler level took in
  that window; whether the level finished its capture; and how many samples were started since.\<close>

definition window :: "event list \<Rightarrow> event list" where
  "window tr = takeWhile (\<lambda>e. e \<noteq> Start) tr"

fun read_times :: "nat \<Rightarrow> event list \<Rightarrow> nat list" where
  "read_times n [] = []"
| "read_times n (Read m t # tr) = (if m = n then read_times n tr @ [t] else read_times n tr)"
| "read_times n (_ # tr) = read_times n tr"

definition first_read :: "nat \<Rightarrow> event list \<Rightarrow> nat option" where
  "first_read n tr = (case read_times n (window tr) of [] \<Rightarrow> None | t # _ \<Rightarrow> Some t)"

definition marked :: "nat \<Rightarrow> event list \<Rightarrow> bool" where
  "marked n tr \<longleftrightarrow> Mark n \<in> set (window tr)"

definition age :: "nat \<Rightarrow> event list \<Rightarrow> nat" where
  "age n tr = length (filter (\<lambda>e. e = Start) (takeWhile (\<lambda>e. e \<noteq> Mark n) tr))"

definition undisturbed :: "nat \<Rightarrow> event list \<Rightarrow> bool" where
  "undisturbed n tr \<longleftrightarrow> Take n True \<notin> set (window tr)"

lemma window_simps [simp]:
  "window [] = []"
  "window (e # tr) = (if e = Start then [] else e # window tr)"
  by (simp_all add: window_def)

lemma first_read_Nil [simp]: "first_read n [] = None"
  by (simp add: first_read_def)

lemma first_read_Cons [simp]:
  "first_read n (e # tr) =
     (case e of Start \<Rightarrow> None
      | Read m t \<Rightarrow> if m = n \<and> first_read n tr = None then Some t else first_read n tr
      | _ \<Rightarrow> first_read n tr)"
  by (cases e) (auto simp: first_read_def Cons_eq_append_conv split: list.splits)

lemma marked_simps [simp]:
  "\<not> marked n []"
  "marked n (e # tr) \<longleftrightarrow> e \<noteq> Start \<and> (e = Mark n \<or> marked n tr)"
  by (auto simp: marked_def)

lemma age_simps [simp]:
  "age n [] = 0"
  "age n (e # tr) = (if e = Mark n then 0 else if e = Start then Suc (age n tr) else age n tr)"
  by (simp_all add: age_def)

lemma undisturbed_simps [simp]:
  "undisturbed n []"
  "undisturbed n (e # tr) \<longleftrightarrow> e = Start \<or> e \<noteq> Take n True \<and> undisturbed n tr"
  by (auto simp: undisturbed_def)

lemma age_zero_marked: "age n tr = 0 \<Longrightarrow> Start \<in> set tr \<Longrightarrow> marked n tr"
  by (induction tr) (auto split: if_splits)

lemma first_read_in_window: "first_read n tr = Some t \<Longrightarrow> Read n t \<in> set (window tr)"
  by (induction tr) (auto split: event.splits if_splits)

subsection \<open>A capture channel\<close>

text \<open>What one handler level sees of a step: the sequence number of the running sample, its own
  sequence number, its captured ticks and the program points of its activations.\<close>

type_synonym chan = "u16 \<times> u16 \<times> u32 \<times> hpc list"

inductive chan_step :: "nat \<Rightarrow> nat \<Rightarrow> u32 \<Rightarrow> chan \<Rightarrow> event \<Rightarrow> chan \<Rightarrow> bool" for n m t where
  other: "e \<notin> {Start, Mark n} \<union> range (Take n) \<union> range (Read n) \<Longrightarrow>
    chan_step n m t (ss, q, k, ps) e (ss, q, k, ps)"
| bump: "chan_step n m t (ss, q, k, []) Start (ss + 1, q, k, [])"
| enter: "chan_step n m t (ss, q, k, ps) (Take n (ps \<noteq> [])) (ss, q, k, H_check # ps)"
| check: "chan_step n m t (ss, q, k, H_check # ps) Quiet
    (ss, q, k, (if q \<noteq> ss then H_read else H_rte) # ps)"
| read: "chan_step n m t (ss, q, k, H_read # ps) (Read n m) (ss, q, k, H_store t # ps)"
| store: "chan_step n m t (ss, q, k, H_store v # ps) Quiet (ss, q, v, H_mark # ps)"
| mark: "chan_step n m t (ss, q, k, H_mark # ps) (Mark n) (ss, ss, k, H_rte # ps)"
| leave: "chan_step n m t (ss, q, k, H_rte # ps) Quiet (ss, q, k, ps)"

inductive_cases chan_stepE: "chan_step n m t x e y"

lemma chan_step_check:
  "q \<noteq> ss \<Longrightarrow> chan_step n m t (ss, q, k, H_check # ps) Quiet (ss, q, k, H_read # ps)"
  "chan_step n m t (ss, ss, k, H_check # ps) Quiet (ss, ss, k, H_rte # ps)"
  using chan_step.check [of n m t ss q k ps] chan_step.check [of n m t ss ss k ps] by simp_all

text \<open>While no handler re-enters itself, its captured value is the first reading of the window.\<close>

lemma marked_age_zero: "marked n tr \<Longrightarrow> age n tr = 0"
  by (induction tr) auto

definition captured :: "nat \<Rightarrow> event list \<Rightarrow> u32 \<Rightarrow> bool" where
  "captured n tr k \<longleftrightarrow>
     marked n tr \<and> first_read n tr \<noteq> None \<and> k = of_nat (the (first_read n tr))"

definition untouched :: "nat \<Rightarrow> event list \<Rightarrow> bool" where
  "untouched n tr \<longleftrightarrow> \<not> marked n tr \<and> first_read n tr = None"

fun capture_inv :: "nat \<Rightarrow> event list \<Rightarrow> u32 \<Rightarrow> hpc list \<Rightarrow> bool" where
  "capture_inv n tr k [] \<longleftrightarrow> untouched n tr \<or> captured n tr k"
| "capture_inv n tr k [H_check] \<longleftrightarrow> untouched n tr \<or> captured n tr k"
| "capture_inv n tr k [H_read] \<longleftrightarrow> untouched n tr"
| "capture_inv n tr k [H_store t] \<longleftrightarrow>
     \<not> marked n tr \<and> first_read n tr \<noteq> None \<and> t = of_nat (the (first_read n tr))"
| "capture_inv n tr k [H_mark] \<longleftrightarrow>
     \<not> marked n tr \<and> first_read n tr \<noteq> None \<and> k = of_nat (the (first_read n tr))"
| "capture_inv n tr k [H_rte] \<longleftrightarrow> untouched n tr \<or> captured n tr k"
| "capture_inv n tr k (_ # _ # _) \<longleftrightarrow> False"

lemma capture_inv_single: "capture_inv n tr k (p # ps) \<Longrightarrow> ps = []"
  by (cases ps) (auto elim: capture_inv.elims)

lemma capture_inv_other:
  assumes "e \<notin> {Start, Mark n} \<union> range (Take n) \<union> range (Read n)"
  shows "capture_inv n (e # tr) k ps = capture_inv n tr k ps"
proof -
  have "first_read n (e # tr) = first_read n tr" "marked n (e # tr) = marked n tr"
    using assms by (auto split: event.split)
  then show ?thesis
    by (cases "(n, tr, k, ps)" rule: capture_inv.cases)
      (simp_all add: captured_def untouched_def del: first_read_Cons marked_simps)
qed

lemma chan_step_seq:
  assumes "chan_step n m t (ss, q, k, ps) e (ss', q', k', ps')" "ss = q + of_nat (age n tr)"
  shows "ss' = q' + of_nat (age n (e # tr))"
  using assms by (cases rule: chan_step.cases) auto

lemma chan_step_capture:
  assumes "chan_step n m (of_nat m) (ss, q, k, ps) e (ss', q', k', ps')"
    and "ss = q + of_nat (age n tr)"
    and "undisturbed n tr \<Longrightarrow> capture_inv n tr k ps"
    and "undisturbed n (e # tr)"
  shows "capture_inv n (e # tr) k' ps'"
  using assms(1)
proof cases
  case other
  then show ?thesis
    using assms(3,4) capture_inv_other [OF other(5), of tr k ps] by auto
next
  case bump
  then show ?thesis
    by (simp add: untouched_def)
next
  case (check pss)
  then have "pss = []"
    using assms(3,4) capture_inv_single [of n tr k H_check pss] by simp
  then show ?thesis
    using check assms(2-4)
    by (auto simp: captured_def untouched_def dest: marked_age_zero)
qed (use assms capture_inv_single in \<open>fastforce simp: captured_def untouched_def\<close>)+

text \<open>A settled channel holds the running sample's number and no activation that could change it.\<close>

definition settled :: "chan \<Rightarrow> bool" where
  "settled x \<longleftrightarrow> (case x of (ss, q, k, ps) \<Rightarrow> q = ss \<and> set ps \<subseteq> {H_check, H_rte})"

lemma chan_step_settled:
  assumes "chan_step n m t (ss, q, k, ps) e (ss', q', k', ps')" "settled (ss, q, k, ps)" "e \<noteq> Start"
  shows "settled (ss', q', k', ps') \<and> k' = k"
  using assms by (cases rule: chan_step.cases) (auto simp: settled_def)

definition acts :: "nat \<Rightarrow> cfg \<Rightarrow> hpc list" where
  "acts n c = map act_pc (filter (\<lambda>a. act_level a = n) (stack c))"

lemma reentrant_acts: "reentrant n c \<longleftrightarrow> acts n c \<noteq> []"
  by (auto simp: reentrant_def acts_def filter_empty_conv)

lemma acts_take: "acts n (take_interrupt m c) = (if m = n then H_check # acts n c else acts n c)"
  by (simp add: acts_def take_interrupt_def)

lemmas main_defs = main_step_def switch_step_def Let_def

lemma main_step_frame:
  "now (snd (main_step c)) = now c"
  "ticks (snd (main_step c)) = ticks c"
  "stack (snd (main_step c)) = stack c"
  "fst (main_step c) \<noteq> Tick" "fst (main_step c) \<noteq> Take n r"
  "fst (main_step c) \<noteq> Read n m" "fst (main_step c) \<noteq> Mark n"
  "sample_seq (snd (main_step c)) =
     (if fst (main_step c) = Start then sample_seq c + 1 else sample_seq c)"
  by (simp_all add: main_defs sampler_defs split: mpc.split State.split)

lemma handler_step_frame:
  assumes "handler_step n pc c = (e, pc', c')"
  shows "now c' = now c" "ticks c' = ticks c" "mpc c' = mpc c" "sample_seq c' = sample_seq c"
    "stack c' = stack c" "state c' = state c"
    "e \<noteq> Tick" "e \<noteq> Take m r" "e \<noteq> Start" "e \<noteq> Accept d" "e \<noteq> Miss"
  using assms by (cases pc; auto simp: clock_get_ticks_eq level2_handler_def split: if_splits)+

lemmas cfg_init_defs = cfg_init_def sampler_init_def sampler.defs

lemma step_clock:
  assumes "step c e c'" "ticks c = of_nat (now c)"
  shows "ticks c' = of_nat (now c')"
  using assms(1)
proof cases
  case (handler a st)
  then show ?thesis
    using assms(2) handler_step_frame(1,2)
    by (fastforce simp: stack_step_def split: if_splits prod.splits)
next
  case main
  then show ?thesis
    using assms(2) main_step_frame(1,2) [of c] by simp
qed (use assms(2) in \<open>auto simp: take_interrupt_def\<close>)

lemma run_clock: "run tr c \<Longrightarrow> ticks c = of_nat (now c)"
  by (induction rule: run.induct) (auto simp: cfg_init_defs dest: step_clock)

text \<open>The interface of a capture channel: its sequence number and ticks as the handler code treats
  them. Both handlers of main.c provide it.\<close>

locale capture_channel =
  fixes lvl :: nat and seq :: "cfg \<Rightarrow> u16" and tks :: "cfg \<Rightarrow> u32"
  assumes check_law: "handler_step lvl H_check c =
      (Quiet, if seq c \<noteq> sample_seq c then H_read else H_rte, c)"
    and body_law: "handler_step n pc c = (e, pc', c') \<Longrightarrow>
      seq c' = (if n = lvl \<and> pc = H_mark then sample_seq c else seq c) \<and>
      tks c' = (case pc of H_store t \<Rightarrow> if n = lvl then t else tks c | _ \<Rightarrow> tks c)"
    and main_law: "seq (snd (main_step c)) = seq c" "tks (snd (main_step c)) = tks c"
    and frame_law: "seq (c\<lparr>now := m, ticks := t\<rparr>) = seq c" "tks (c\<lparr>now := m, ticks := t\<rparr>) = tks c"
      "seq (c\<lparr>stack := st, sr := w\<rparr>) = seq c" "tks (c\<lparr>stack := st, sr := w\<rparr>) = tks c"
      "seq (c\<lparr>stack := st\<rparr>) = seq c" "tks (c\<lparr>stack := st\<rparr>) = tks c"
    and init_law: "seq (cfg_init w t0) = sample_seq (cfg_init w t0)"
begin

lemma take_interrupt_frame:
  "seq (take_interrupt n c) = seq c" "tks (take_interrupt n c) = tks c"
  "sample_seq (take_interrupt n c) = sample_seq c"
  by (simp_all add: take_interrupt_def frame_law)

definition view :: "cfg \<Rightarrow> chan" where
  "view c = (sample_seq c, seq c, tks c, acts lvl c)"

lemma handler_simulates:
  assumes "stack c = a # st" "stack_step a st c = (e, c')"
  shows "chan_step lvl (now c) (ticks c) (view c) e (view c')"
proof (cases "act_pc a = H_rte")
  case True
  then have "e = Quiet" "c' = c\<lparr>stack := st, sr := act_sr a\<rparr>"
    using assms by (auto simp: stack_step_def)
  then show ?thesis
    using True assms(1)
    by (auto simp: view_def acts_def frame_law intro: chan_step.intros)
next
  case False
  obtain pc' c1 where h: "handler_step (act_level a) (act_pc a) c = (e, pc', c1)"
    and c': "c' = c1\<lparr>stack := Act (act_level a) pc' (act_sr a) # st\<rparr>"
    using assms False by (auto simp: stack_step_def split: prod.splits)
  note fr = handler_step_frame [OF h] and b = body_law [OF h]
  show ?thesis
  proof (cases "act_level a = lvl")
    case True
    show ?thesis
      using h False True b fr assms(1) unfolding c'
      by (cases "act_pc a")
        (auto simp: view_def acts_def frame_law check_law clock_get_ticks_eq
          simp del: handler_step.simps(1) intro: chan_step.intros chan_step_check)
  next
    case other: False
    have "e \<noteq> Mark lvl \<and> e \<notin> range (Read lvl)"
      using h other by (cases "act_pc a") (auto simp: clock_get_ticks_eq split: if_splits)
    then show ?thesis
      using other b fr assms(1) unfolding c'
      by (auto simp: view_def acts_def frame_law intro!: chan_step.other split: hpc.splits)
  qed
qed

lemma step_simulates:
  assumes "step c e c'"
  shows "chan_step lvl (now c) (ticks c) (view c) e (view c')"
  using assms
proof cases
  case tick
  then show ?thesis
    by (auto simp: view_def acts_def frame_law intro!: chan_step.other)
next
  case (irq n)
  then show ?thesis
    using chan_step.enter [of lvl "now c" "ticks c" "sample_seq c" "seq c" "tks c" "acts lvl c"]
    by (cases "n = lvl")
      (auto simp: view_def acts_take reentrant_acts take_interrupt_frame intro!: chan_step.other)
next
  case (handler a st)
  then show ?thesis
    by (rule handler_simulates)
next
  case main
  then have e: "e = fst (main_step c)" and c': "c' = snd (main_step c)" and st: "stack c = []"
    by simp_all
  have "acts lvl c = []" "acts lvl c' = []"
    using st by (simp_all add: acts_def c' main_step_frame)
  then have "view c = (sample_seq c, seq c, tks c, [])"
    "view c' = (if e = Start then sample_seq c + 1 else sample_seq c, seq c, tks c, [])"
    by (simp_all add: view_def c' main_law main_step_frame(8) e)
  moreover have "e \<noteq> Mark lvl" "e \<notin> range (Take lvl)" "e \<notin> range (Read lvl)"
    unfolding e using main_step_frame(5,6,7) by (auto simp: image_iff)
  ultimately show ?thesis
    by (cases "e = Start") (simp_all add: chan_step.bump chan_step.other)
qed

lemma step_settled:
  assumes "step c e c'" "settled (view c)" "e \<noteq> Start"
  shows "settled (view c')" "tks c' = tks c"
  using chan_step_settled [OF step_simulates [OF assms(1), unfolded view_def]] assms(2,3)
  by (auto simp: view_def)

lemma run_seq: "run tr c \<Longrightarrow> sample_seq c = seq c + of_nat (age lvl tr)"
proof (induction rule: run.induct)
  case (start w t0)
  then show ?case
    by (simp add: init_law)
next
  case (more tr c e c')
  then show ?case
    using chan_step_seq [OF step_simulates [OF more(2), unfolded view_def]] by simp
qed

lemma run_capture: "run tr c \<Longrightarrow> undisturbed lvl tr \<Longrightarrow> capture_inv lvl tr (tks c) (acts lvl c)"
proof (induction rule: run.induct)
  case (start w t0)
  then show ?case
    by (simp add: acts_def cfg_init_defs untouched_def)
next
  case (more tr c e c')
  have "ticks c = of_nat (now c)"
    using more(1) by (rule run_clock)
  then show ?case
    using chan_step_capture [OF step_simulates [OF more(2), unfolded view_def \<open>ticks c = of_nat (now c)\<close>]]
      more run_seq by blast
qed

lemma settled_capture:
  assumes "run tr c" "settled (view c)" "undisturbed lvl tr" "age lvl tr < 65536" "Start \<in> set tr"
  obtains \<tau> where "first_read lvl tr = Some \<tau>" "tks c = of_nat \<tau>"
proof -
  have "sample_seq c = seq c"
    using assms(2) by (simp add: settled_def view_def)
  then have "of_nat (age lvl tr) = (0 :: u16)"
    using run_seq [OF assms(1)] by simp
  then have "age lvl tr = 0"
    using assms(4) by (auto simp: word_of_nat_eq_0_iff dest: dvd_imp_le)
  then have "marked lvl tr"
    using assms(5) by (rule age_zero_marked)
  then have "captured lvl tr (tks c)"
    using run_capture [OF assms(1,3)] assms(2)
    by (cases "(lvl, tr, tks c, acts lvl c)" rule: capture_inv.cases)
      (auto simp: settled_def view_def untouched_def)
  then show ?thesis
    using that by (auto simp: captured_def)
qed

end

interpretation frame: capture_channel 4 frame_seq frame_ticks
proof
  fix c e c' n pc pc'
  assume "handler_step n pc c = (e, pc', c')"
  then show "frame_seq c' = (if n = 4 \<and> pc = H_mark then sample_seq c else frame_seq c) \<and>
      frame_ticks c' = (case pc of H_store t \<Rightarrow> if n = 4 then t else frame_ticks c | _ \<Rightarrow> frame_ticks c)"
    by (cases pc) (auto simp: clock_get_ticks_eq level2_handler_def split: if_splits)
qed (simp_all add: main_defs sampler_defs cfg_init_defs split: mpc.split State.split)

interpretation sensor: capture_channel 6 sensor_seq sensor_ticks
proof
  fix c e c' n pc pc'
  assume "handler_step n pc c = (e, pc', c')"
  then show "sensor_seq c' = (if n = 6 \<and> pc = H_mark then sample_seq c else sensor_seq c) \<and>
      sensor_ticks c' = (case pc of H_store t \<Rightarrow> if n = 6 then t else sensor_ticks c | _ \<Rightarrow> sensor_ticks c)"
    by (cases pc) (auto simp: clock_get_ticks_eq level2_handler_def split: if_splits)
qed (simp_all add: main_defs sampler_defs cfg_init_defs split: mpc.split State.split)

subsection \<open>The main program\<close>

text \<open>Between its checks and its record the main program relies on captures that cannot move.\<close>

definition both_settled :: "cfg \<Rightarrow> bool" where
  "both_settled c \<longleftrightarrow> settled (frame.view c) \<and> settled (sensor.view c)"

definition main_inv :: "event list \<Rightarrow> cfg \<Rightarrow> bool" where
  "main_inv tr c \<longleftrightarrow>
     (state c = ST_WAIT_SAMPLE \<longrightarrow> mpc c = M_bump \<or> Start \<in> set tr) \<and>
     (case mpc c of
        M_idle \<Rightarrow> True | M_switch t \<Rightarrow> True | M_bump \<Rightarrow> True
      | M_sensor \<Rightarrow> Start \<in> set tr \<and> settled (frame.view c)
      | M_clear \<Rightarrow> Start \<in> set tr \<and> both_settled c
      | M_cmp \<Rightarrow> Start \<in> set tr \<and> both_settled c
      | M_cmp2 f \<Rightarrow> Start \<in> set tr \<and> both_settled c \<and> f = frame_ticks c
      | M_diff \<Rightarrow> Start \<in> set tr \<and> both_settled c \<and> frame_ticks c < sensor_ticks c
      | M_diff2 r \<Rightarrow> Start \<in> set tr \<and> both_settled c \<and> r = sensor_ticks c \<and> frame_ticks c < r)"

lemma settled_main:
  "stack c = [] \<Longrightarrow> settled (frame.view c) \<longleftrightarrow> frame_seq c = sample_seq c"
  "stack c = [] \<Longrightarrow> settled (sensor.view c) \<longleftrightarrow> sensor_seq c = sample_seq c"
  by (simp_all add: settled_def frame.view_def sensor.view_def acts_def)

lemma stack_step_frame:
  assumes "stack_step a st c = (e, c')"
  shows "mpc c' = mpc c" "state c' = state c" "e \<noteq> Start" "e \<noteq> Accept d" "e \<noteq> Miss"
proof -
  obtain e1 pc c1 where h: "handler_step (act_level a) (act_pc a) c = (e1, pc, c1)"
    by (metis prod_cases3)
  show "mpc c' = mpc c" "state c' = state c" "e \<noteq> Start" "e \<noteq> Accept d" "e \<noteq> Miss"
    using assms h handler_step_frame [OF h] by (auto simp: stack_step_def split: if_splits)
qed

lemma step_not_main:
  assumes "step c e c'" "\<not> (main_step c = (e, c') \<and> stack c = [])"
  shows "mpc c' = mpc c" "state c' = state c" "e \<noteq> Start" "e \<noteq> Accept d" "e \<noteq> Miss"
  using assms
  by (auto elim!: stepE simp: take_interrupt_def stack_step_frame(1,2) dest: stack_step_frame(3-5))

lemma main_inv_main:
  assumes "main_inv tr c" "stack c = []"
  shows "main_inv (fst (main_step c) # tr) (snd (main_step c))"
proof (cases "mpc c")
  case (M_switch t)
  then show ?thesis
    using assms
    by (cases "state c")
      (auto simp: main_inv_def both_settled_def settled_main main_defs sampler_defs)
qed (use assms in \<open>auto simp: main_inv_def both_settled_def settled_main main_step_def sampler_defs
    Let_def\<close>)

lemma main_inv_step:
  assumes "step c e c'" "main_inv tr c"
  shows "main_inv (e # tr) c'"
proof (cases "main_step c = (e, c') \<and> stack c = []")
  case True
  then show ?thesis
    using main_inv_main [OF assms(2)] by auto
next
  case False
  note same = step_not_main [OF assms(1) False]
  show ?thesis
    using assms(2) same frame.step_settled [OF assms(1)] sensor.step_settled [OF assms(1)]
    by (auto simp: main_inv_def both_settled_def split: mpc.splits)
qed

lemma run_main_inv: "run tr c \<Longrightarrow> main_inv tr c"
proof (induction rule: run.induct)
  case (start w t0)
  then show ?case
    by (simp add: main_inv_def cfg_init_defs)
next
  case (more tr c e c')
  then show ?case
    by (blast intro: main_inv_step)
qed

lemma accept_from:
  assumes "step c (Accept d) c'" "main_inv tr c"
  shows "Start \<in> set tr" "both_settled c" "frame_ticks c < sensor_ticks c"
    "d = sensor_ticks c - frame_ticks c" "latest_sample c' = d"
proof -
  have "main_step c = (Accept d, c')"
    using assms(1) step_not_main(4) by blast
  then have "\<exists>r. mpc c = M_diff2 r \<and> d = r - frame_ticks c \<and> latest_sample c' = d"
    by (auto simp: main_defs sampler_defs split: mpc.splits State.splits if_splits)
  then show "Start \<in> set tr" "both_settled c" "frame_ticks c < sensor_ticks c"
    "d = sensor_ticks c - frame_ticks c" "latest_sample c' = d"
    using assms(2) by (auto simp: main_inv_def)
qed

lemma word_diff_of_nat:
  assumes "(of_nat f :: 'a::len word) < of_nat s" "unat (of_nat s - of_nat f :: 'a word) < 2 ^ m"
    and "s < f + 2 ^ m" "f < s + 2 ^ m" "2 * 2 ^ m \<le> (2 :: nat) ^ LENGTH('a)"
  shows "f < s \<and> unat (of_nat s - of_nat f :: 'a word) = s - f"
proof (cases "f < s")
  case True
  then have "of_nat s - of_nat f = (of_nat (s - f) :: 'a word)"
    by (simp add: of_nat_diff)
  moreover have "s - f < 2 ^ LENGTH('a)"
    using assms(3,5) True by linarith
  then have "unat (of_nat (s - f) :: 'a word) = s - f"
    by (simp add: unat_of_nat take_bit_nat_eq_self del: of_nat_diff)
  ultimately show ?thesis
    using True by simp
next
  case False
  define k where "k = 2 ^ LENGTH('a) - (f - s)"
  have "of_nat k = (of_nat s - of_nat f :: 'a word)"
    using False assms(4,5) by (simp add: k_def of_nat_diff)
  moreover have "f \<noteq> s"
    using assms(1) by auto
  then have "k < 2 ^ LENGTH('a)" "2 ^ m \<le> k"
    using False assms(4,5) by (auto simp: k_def)
  then have "unat (of_nat k :: 'a word) = k"
    by (simp add: unat_of_nat take_bit_nat_eq_self)
  ultimately show ?thesis
    using assms(2) \<open>2 ^ m \<le> k\<close> by simp
qed

text \<open>C2. A sample that do_sampling records is the time between two captures of its own window.
  Whatever the interleaving of the main loop, the clock and the three interrupts since power up, when
  a sample is accepted both handlers have read the clock since the sample was started, and if their
  first readings lie within 2147483648 ticks of each other and the recorded value is below 2147483648, the
  value is exactly the sensor reading minus the frame reading, which came first. It needs that no
  handler re-entered itself in the window and that fewer than 65536 samples were started since each
  handler's last capture, so that the 16-bit sequence numbers cannot alias.\<close>

theorem accepted_sample_is_latency:
  assumes "run (Accept d # tr) c"
    and "undisturbed 4 tr" "undisturbed 6 tr"
    and "age 4 tr < 65536" "age 6 tr < 65536"
  shows "\<exists>f s. first_read 4 tr = Some f \<and> first_read 6 tr = Some s \<and> latest_sample c = d \<and>
     (\<bar>int s - int f\<bar> < 2 ^ 31 \<and> unat d < 2 ^ 31 \<longrightarrow> f < s \<and> unat d = s - f)"
proof -
  obtain c0 where r: "run tr c0" and st: "step c0 (Accept d) c"
    using assms(1) by (auto elim: run.cases)
  note a = accept_from [OF st run_main_inv [OF r]]
  obtain f where f: "first_read 4 tr = Some f" "frame_ticks c0 = of_nat f"
    using frame.settled_capture [OF r] a(1,2) assms by (auto simp: both_settled_def)
  obtain s where s: "first_read 6 tr = Some s" "sensor_ticks c0 = of_nat s"
    using sensor.settled_capture [OF r] a(1,2) assms by (auto simp: both_settled_def)
  have "f < s \<and> unat d = s - f" if "\<bar>int s - int f\<bar> < 2 ^ 31" "unat d < 2 ^ 31"
  proof -
    have "s < f + 2147483648"
      using that(1) by simp
    moreover have "f < s + 2147483648"
      using that(1) by simp
    ultimately show ?thesis
      using word_diff_of_nat [of f s 31, where 'a = 32] a(3,4) that(2) unfolding f s by simp
  qed
  then show ?thesis
    using f s a(5) by blast
qed


subsection \<open>Scripted runs\<close>

definition idle_ticks :: "nat \<Rightarrow> event list" where
  "idle_ticks k = replicate k Tick"

definition wait :: "nat \<Rightarrow> event list \<times> cfg \<Rightarrow> event list \<times> cfg" where
  "wait k x = (case x of (tr, c) \<Rightarrow>
     (idle_ticks k @ tr, c\<lparr>now := now c + k, ticks := ticks c + of_nat k\<rparr>))"

definition irq_in :: "nat \<Rightarrow> event list \<times> cfg \<Rightarrow> event list \<times> cfg" where
  "irq_in n x = (case x of (tr, c) \<Rightarrow>
     if n \<in> {2, 4, 6} \<and> ipl c < n then (Take n (reentrant n c) # tr, take_interrupt n c) else x)"

definition go :: "event list \<times> cfg \<Rightarrow> event list \<times> cfg" where
  "go x = (case x of (tr, c) \<Rightarrow>
     case (case stack c of [] \<Rightarrow> main_step c | a # st \<Rightarrow> stack_step a st c) of
       (e, c') \<Rightarrow> (e # tr, c'))"

lemma run_wait: "case_prod run x \<Longrightarrow> case_prod run (wait k x)"
proof (cases x)
  case (Pair tr c)
  assume "case_prod run x"
  then have "run (idle_ticks k @ tr) (c\<lparr>now := now c + k, ticks := ticks c + of_nat k\<rparr>)"
  proof (induction k)
    case 0
    then show ?case
      by (simp add: Pair idle_ticks_def)
  next
    case (Suc k)
    show ?case
      using run.more [OF Suc.IH [OF Suc.prems] step.tick] by (simp add: idle_ticks_def add_ac)
  qed
  then show ?thesis
    by (simp add: wait_def Pair)
qed

lemma run_irq_in: "case_prod run x \<Longrightarrow> case_prod run (irq_in n x)"
  by (auto simp: irq_in_def split: prod.splits intro: run.more step.irq)

lemma run_go: "case_prod run x \<Longrightarrow> case_prod run (go x)"
  by (auto simp: go_def split: prod.splits list.splits intro: run.more step.main step.handler)

lemma idle_ticks_simps [simp]:
  "age n (idle_ticks k @ tr) = age n tr"
  "undisturbed n (idle_ticks k @ tr) = undisturbed n tr"
  "first_read n (idle_ticks k @ tr) = first_read n tr"
  by (induction k) (simp_all add: idle_ticks_def)

datatype action = Wait nat | Irq nat | Go

fun act :: "action \<Rightarrow> event list \<times> cfg \<Rightarrow> event list \<times> cfg" where
  "act (Wait k) x = wait k x"
| "act (Irq n) x = irq_in n x"
| "act Go x = go x"

definition script :: "action list \<Rightarrow> event list \<times> cfg" where
  "script as = fold act as ([], cfg_init 0x2000 0)"

lemma run_act: "case_prod run x \<Longrightarrow> case_prod run (act a x)"
  by (cases a) (simp_all only: act.simps run_wait run_irq_in run_go)

lemma run_script: "case_prod run (script as)"
proof -
  have "case_prod run (fold act as x)" if "case_prod run x" for x
    using that by (induction as arbitrary: x) (simp_all add: run_act del: split_paired_All)
  then show ?thesis
    by (simp add: script_def run.start)
qed

definition demo_script :: "action list" where
  "demo_script = [Go, Go, Wait 2000000, Go, Go, Go, Go, Go, Wait 100, Irq 4, Go, Go, Go, Go, Go,
     Wait 40000, Irq 6, Go, Go, Go, Go, Go, Wait 2000000, Go, Go, Go, Go, Go, Go, Go]"

lemmas script_defs = script_def wait_def irq_in_def go_def main_defs sampler_defs sample_time_defs
  stack_step_def take_interrupt_def reentrant_def exception_sr_def ipl_def cfg_init_defs

lemma demo_script_trace:
  "script (demo_script @ [Go]) = (Accept 40000 # fst (script demo_script), snd (script (demo_script @ [Go])))"
  by (simp add: demo_script_def script_defs prod_eq_iff)

lemma demo_script_facts:
  "age 4 (fst (script demo_script)) = 0" "age 6 (fst (script demo_script)) = 0"
  "undisturbed 4 (fst (script demo_script))" "undisturbed 6 (fst (script demo_script))"
  "first_read 4 (fst (script demo_script)) = Some 2000100"
  "first_read 6 (fst (script demo_script)) = Some 2040100"
  by (simp_all add: demo_script_def script_defs)

theorem accepted_sample_is_latency_witness:
  "\<exists>f s. first_read 4 (fst (script demo_script)) = Some f \<and>
     first_read 6 (fst (script demo_script)) = Some s \<and> f < s \<and> unat (40000 :: u32) = s - f"
proof -
  have "run (Accept 40000 # fst (script demo_script)) (snd (script (demo_script @ [Go])))"
    using run_script [of "demo_script @ [Go]"] by (subst (asm) demo_script_trace) simp
  from accepted_sample_is_latency [OF this] show ?thesis
    by (simp add: demo_script_facts)
qed

definition bounce_script :: "action list" where
  "bounce_script = [Go, Go, Wait 2000000, Go, Go, Go, Go, Go, Wait 100, Irq 4, Go, Go, Go, Go, Go,
     Wait 40000, Irq 6, Go, Go, Go, Wait 50, Irq 6, Go, Go, Go, Go, Go, Go, Go,
     Wait 2000000, Go, Go, Go, Go, Go, Go, Go]"

text \<open>C24. Without the condition on re-entry the previous property fails. Because reading the
  clock opens the interrupt mask inside a handler, a second sensor edge between the store of the
  ticks and the store of the sequence number makes the handler capture again: there is a run that
  records a latency longer than the one between the first two readings.\<close>

theorem reentry_spoils_sample:
  "\<exists>d tr c f s. run (Accept d # tr) c \<and> age 4 tr = 0 \<and> age 6 tr = 0 \<and> undisturbed 4 tr \<and>
     first_read 4 tr = Some f \<and> first_read 6 tr = Some s \<and> f < s \<and> s - f < unat d"
proof -
  let ?tr = "fst (script bounce_script)" and ?c = "snd (script (bounce_script @ [Go]))"
  have "script (bounce_script @ [Go]) = (Accept 40050 # ?tr, ?c)"
    by (simp add: bounce_script_def script_defs prod_eq_iff)
  then have "run (Accept 40050 # ?tr) ?c"
    using run_script [of "bounce_script @ [Go]"] by (metis case_prod_conv)
  moreover have "age 4 ?tr = 0" "age 6 ?tr = 0" "undisturbed 4 ?tr" "first_read 4 ?tr = Some 2000100"
    "first_read 6 ?tr = Some 2040100"
    by (simp_all add: bounce_script_def script_defs)
  ultimately show ?thesis
    by (intro exI [of _ 40050] exI [of _ ?tr] exI [of _ ?c] exI [of _ 2000100] exI [of _ 2040100])
      simp
qed

subsection \<open>Uninterrupted execution\<close>

text \<open>Stepping the main program alone until it is idle again, and a handler alone until it returns.\<close>

fun main_alone :: "nat \<Rightarrow> cfg \<Rightarrow> cfg option" where
  "main_alone 0 c = None"
| "main_alone (Suc k) c =
     (let c' = snd (main_step c) in if mpc c' = M_idle then Some c' else main_alone k c')"

fun handler_alone :: "nat \<Rightarrow> cfg \<Rightarrow> cfg option" where
  "handler_alone 0 c = None"
| "handler_alone (Suc k) c =
     (case stack c of [] \<Rightarrow> Some c | a # st \<Rightarrow> handler_alone k (snd (stack_step a st c)))"

lemma main_alone_pc:
  "mpc c = M_diff2 r \<Longrightarrow> main_alone (Suc k) c =
     Some ((record_new_sample (r - frame_ticks c) c)\<lparr>mpc := M_idle\<rparr>)"
  "mpc c = M_diff \<Longrightarrow> main_alone (Suc k) c = main_alone k (c\<lparr>mpc := M_diff2 (sensor_ticks c)\<rparr>)"
  "mpc c = M_cmp2 f \<Longrightarrow> main_alone (Suc k) c =
     (if f \<ge> sensor_ticks c then Some ((record_missing_sample c)\<lparr>mpc := M_idle\<rparr>)
      else main_alone k (c\<lparr>mpc := M_diff\<rparr>))"
  "mpc c = M_cmp \<Longrightarrow> main_alone (Suc k) c = main_alone k (c\<lparr>mpc := M_cmp2 (frame_ticks c)\<rparr>)"
  "mpc c = M_clear \<Longrightarrow> main_alone (Suc k) c = main_alone k ((set_state ST_CLEAR c)\<lparr>mpc := M_cmp\<rparr>)"
  "mpc c = M_sensor \<Longrightarrow> main_alone (Suc k) c =
     (if sample_seq c = sensor_seq c then main_alone k (c\<lparr>mpc := M_clear\<rparr>)
      else Some (c\<lparr>mpc := M_idle\<rparr>))"
  "mpc c = M_bump \<Longrightarrow>
     main_alone (Suc k) c = Some (c\<lparr>sample_seq := sample_seq c + 1, mpc := M_idle\<rparr>)"
  "mpc c = M_idle \<Longrightarrow> main_alone (Suc k) c =
     main_alone k ((snd (clock_get_ticks c))\<lparr>mpc := M_switch (ticks c)\<rparr>)"
  "mpc c = M_switch t \<Longrightarrow> main_alone (Suc k) c =
     (let c' = snd (switch_step t c) in if mpc c' = M_idle then Some c' else main_alone k c')"
  by (simp_all add: main_step_def clock_get_ticks_eq Let_def)

text \<open>Run without interruption, the steps of the main program are the switch of
  do_sampling: at most eight of them lead from idle to idle and end in the same state.\<close>

lemma steps_implement_do_sampling:
  assumes "mpc c = M_idle"
  shows "main_alone 8 c = Some (do_sampling_switch c)"
proof -
  have "main_alone (Suc (Suc (Suc (Suc (Suc (Suc (Suc (Suc 0)))))))) c = Some (do_sampling_switch c)"
    using assms
    by (cases "state c")
      (simp_all add: main_alone_pc do_sampling_switch_def switch_step_def sampler_defs
        Let_def del: main_alone.simps)
  then show ?thesis
    by (simp only: eval_nat_numeral BitM.simps)
qed

lemma interrupt_eq:
  "interrupt 2 s = s\<lparr>vblank_int_count := vblank_int_count s + 1\<rparr>"
  "interrupt 4 s = (if frame_seq s = sample_seq s then s
     else s\<lparr>ticks_latch := ticks s, frame_ticks := ticks s, frame_seq := sample_seq s\<rparr>)"
  "interrupt 6 s = (if sensor_seq s = sample_seq s then s
     else s\<lparr>ticks_latch := ticks s, sensor_ticks := ticks s, sensor_seq := sample_seq s\<rparr>)"
  by (simp_all add: interrupt_def handler_defs Let_def)

text \<open>Run without interruption, the steps of a handler are the handler of main.c, with the
  status register restored by the return from exception.\<close>

lemma steps_implement_handlers:
  assumes "stack c = []" "n \<in> {2, 4, 6}"
  shows "handler_alone 6 (take_interrupt n c) = Some (interrupt n c)"
proof -
  have "handler_alone (Suc (Suc (Suc (Suc (Suc (Suc 0)))))) (take_interrupt n c) = Some (interrupt n c)"
    using assms
    by (auto simp: take_interrupt_def stack_step_def clock_get_ticks_eq level2_handler_def interrupt_eq)
  then show ?thesis
    by (simp only: eval_nat_numeral BitM.simps)
qed

subsection \<open>The test bar\<close>

definition bar_inv :: "cfg \<Rightarrow> bool" where
  "bar_inv c \<longleftrightarrow>
     length (samples c) = 16 \<and>
     (mpc c \<in> {M_bump, M_sensor, M_clear} \<longrightarrow> state c = ST_WAIT_SAMPLE) \<and>
     (case state c of
        ST_CLEAR \<Rightarrow> True
      | ST_WAIT_CLEAR \<Rightarrow> palette_ram c 0x80 = 0
      | ST_START_SAMPLE \<Rightarrow> palette_ram c 0x80 = 0
      | ST_WAIT_SAMPLE \<Rightarrow> palette_ram c 0x80 = 0xffff
      | ST_END_SAMPLE \<Rightarrow> False)"

lemma bar_inv_main: "bar_inv c \<Longrightarrow> bar_inv (snd (main_step c))"
proof (cases "mpc c")
  case (M_switch t)
  then show "bar_inv c \<Longrightarrow> ?thesis"
    by (cases "state c") (auto simp: bar_inv_def main_defs sampler_defs)
qed (auto simp: bar_inv_def main_step_def sampler_defs Let_def split: State.splits)

lemma stack_step_bar:
  assumes "stack_step a st c = (e, c')"
  shows "samples c' = samples c \<and> palette_ram c' = palette_ram c"
proof -
  obtain e1 pc c1 where h: "handler_step (act_level a) (act_pc a) c = (e1, pc, c1)"
    by (metis prod_cases3)
  then have "samples c1 = samples c \<and> palette_ram c1 = palette_ram c"
    by (cases "act_pc a") (auto simp: clock_get_ticks_eq level2_handler_def split: if_splits)
  then show ?thesis
    using assms h by (auto simp: stack_step_def split: if_splits)
qed

lemma bar_inv_step:
  assumes "step c e c'" "bar_inv c"
  shows "bar_inv c'"
  using assms(1)
proof cases
  case (handler a st)
  then show ?thesis
    using assms(2) stack_step_bar [OF handler(2)] stack_step_frame(1,2) [OF handler(2)]
    by (simp add: bar_inv_def split: State.splits)
next
  case main
  then show ?thesis
    using bar_inv_main [OF assms(2)] by simp
qed (use assms(2) in \<open>auto simp: bar_inv_def take_interrupt_def split: State.splits\<close>)

lemma run_bar_inv: "run tr c \<Longrightarrow> bar_inv c"
proof (induction rule: run.induct)
  case (start w t0)
  then show ?case
    by (simp add: bar_inv_def cfg_init_defs)
next
  case (more tr c e c')
  then show ?case
    by (blast intro: bar_inv_step)
qed

lemma start_step:
  assumes "step c Start c'" "bar_inv c"
  shows "state c' = ST_WAIT_SAMPLE"
proof -
  have "main_step c = (Start, c')"
    using assms(1) step_not_main(3) by blast
  then have "mpc c = M_bump \<and> state c' = state c"
    by (auto simp: main_defs sampler_defs split: mpc.splits State.splits if_splits)
  then show ?thesis
    using assms(2) by (simp add: bar_inv_def)
qed

text \<open>C23. The sequence number moves on, and so the capture window opens, only when the test bar
  has been switched to white and the state machine waits for the sample, under every interleaving.\<close>

theorem capture_window_opens_on_white_bar:
  assumes "run (Start # tr) c"
  shows "state c = ST_WAIT_SAMPLE \<and> palette_ram c 0x80 = 0xffff"
proof -
  obtain c0 where "run tr c0" "step c0 Start c"
    using assms by (auto elim: run.cases)
  then have "state c = ST_WAIT_SAMPLE"
    using run_bar_inv start_step by blast
  then show ?thesis
    using run_bar_inv [OF assms] by (simp add: bar_inv_def)
qed

definition white_script :: "action list" where
  "white_script = [Go, Go, Wait 2000000, Go, Go, Go, Go]"

theorem capture_window_opens_on_white_bar_witness:
  "palette_ram (snd (script (white_script @ [Go]))) 0x80 = 0xffff"
proof -
  have "script (white_script @ [Go]) = (Start # fst (script white_script), snd (script (white_script @ [Go])))"
    by (simp add: white_script_def script_defs prod_eq_iff)
  then have "run (Start # fst (script white_script)) (snd (script (white_script @ [Go])))"
    using run_script [of "white_script @ [Go]"] by (metis case_prod_conv)
  then show ?thesis
    using capture_window_opens_on_white_bar by blast
qed

end
