(* ===== verification/Gfx.thy ===== *)
theory Gfx
  imports Input Printf_Decimal
begin

text \<open>
  The drawing library (gfx.c, gfx.h): the stack of drawing contexts, the two pages of tile memory,
  and the primitives that store tiles directly or through the blitter of the core. A result of
  None stands for behaviour outside the model: an access outside the context array or a local
  buffer, a store outside the tile memory, or a blit that never ends.
\<close>

subsection \<open>Constants and data\<close>

definition ALIGN_NONE :: u32 where "ALIGN_NONE = 0"
definition ALIGN_LEFT :: u32 where "ALIGN_LEFT = push_bit 0 1"
definition ALIGN_RIGHT :: u32 where "ALIGN_RIGHT = push_bit 1 1"
definition ALIGN_CENTER :: u32 where "ALIGN_CENTER = push_bit 2 1"
definition ALIGN_TOP :: u32 where "ALIGN_TOP = push_bit 3 1"
definition ALIGN_MIDDLE :: u32 where "ALIGN_MIDDLE = push_bit 4 1"
definition ALIGN_BOTTOM :: u32 where "ALIGN_BOTTOM = push_bit 5 1"

lemmas align_defs = ALIGN_NONE_def ALIGN_LEFT_def ALIGN_RIGHT_def ALIGN_CENTER_def ALIGN_TOP_def
  ALIGN_MIDDLE_def ALIGN_BOTTOM_def

definition TEXT_INVERT :: u8 where "TEXT_INVERT = 0x01"
definition TEXT_DARK :: u8 where "TEXT_DARK = 0x00"
definition TEXT_DARK_GRAY :: u8 where "TEXT_DARK_GRAY = 0x02"
definition TEXT_GRAY :: u8 where "TEXT_GRAY = 0x04"
definition TEXT_DARK_BLUE :: u8 where "TEXT_DARK_BLUE = 0x08"
definition TEXT_BLUE :: u8 where "TEXT_BLUE = 0x0a"
definition TEXT_RED :: u8 where "TEXT_RED = 0x0e"
definition TEXT_ORANGE :: u8 where "TEXT_ORANGE = 0x1a"

lemmas text_defs = TEXT_INVERT_def TEXT_DARK_def TEXT_DARK_GRAY_def TEXT_GRAY_def
  TEXT_DARK_BLUE_def TEXT_BLUE_def TEXT_RED_def TEXT_ORANGE_def

definition TILE_MAX_W :: int where "TILE_MAX_W = 128"
definition CHR_HORIZ :: u16 where "CHR_HORIZ = 18"
definition CHR_VERT :: u16 where "CHR_VERT = 124"
definition CHR_TR :: u16 where "CHR_TR = 5"
definition CHR_TL :: u16 where "CHR_TL = 17"
definition CHR_BR :: u16 where "CHR_BR = 3"
definition CHR_BL :: u16 where "CHR_BL = 26"
definition CHR_TOP :: u16 where "CHR_TOP = 13"
definition CHR_BOT :: u16 where "CHR_BOT = 14"
definition CHR_LEFT :: u16 where "CHR_LEFT = 22"
definition CHR_RIGHT :: u16 where "CHR_RIGHT = 2"
definition NUM_CTX :: int where "NUM_CTX = 8"

record MenuContext =
  menu_index :: int
  menu_count :: int
  tmp_option_idx :: int

definition INIT_MENU_CONTEXT :: MenuContext where
  "INIT_MENU_CONTEXT = \<lparr>menu_index = -1, menu_count = -1, tmp_option_idx = -1\<rparr>"

record TilemapCtrl =
  hofs :: u16
  vofs :: u16

record Blitter =
  blit_value :: u16
  blit_span :: u16
  blit_skip :: u16
  blit_repeat :: u16
  blit_addr :: u16

text \<open>A menu context is known by its number; the null pointer is None.\<close>

record Context =
  pen :: u8
  sameline :: bool
  rx :: u16
  ry :: u16
  rw :: u16
  rh :: u16
  ctx_y :: u16
  prevx :: u16
  highlighted :: int
  menuctx :: "nat option"

text \<open>The variables of gfx.c on top of the gamepad state. Pointers into tile memory are word
  offsets from its base, the current context is an index into the array.\<close>

record gfx = input +
  tile_ctrl :: TilemapCtrl
  page_tile_ctrl :: "TilemapCtrl list"
  page_vram :: "int list"
  vram :: int
  page_front :: u8
  contexts :: "Context list"
  context_idx :: int
  ctx :: nat
  tiles :: "int \<Rightarrow> u16"
  menus :: "nat \<Rightarrow> MenuContext"

definition cur :: "'a gfx_scheme \<Rightarrow> Context" where
  "cur s = contexts s ! ctx s"

definition upd_cur :: "(Context \<Rightarrow> Context) \<Rightarrow> 'a gfx_scheme \<Rightarrow> 'a gfx_scheme" where
  "upd_cur f s = s\<lparr>contexts := (contexts s)[ctx s := f (cur s)]\<rparr>"

subsection \<open>Tile memory\<close>

text \<open>The assignment \<open>vram[ofs] = v\<close>; tile memory has 16384 words.\<close>

definition poke :: "int \<Rightarrow> u16 \<Rightarrow> 'a gfx_scheme \<Rightarrow> 'a gfx_scheme option" where
  "poke ofs v s =
     (let a = vram s + ofs
      in if 0 \<le> a \<and> a < 16384 then Some (s\<lparr>tiles := (tiles s)(a := v)\<rparr>) else None)"

fun pokes :: "(int \<times> u16) list \<Rightarrow> 'a gfx_scheme \<Rightarrow> 'a gfx_scheme option" where
  "pokes [] s = Some s"
| "pokes ((ofs, v) # ps) s = poke ofs v s \<bind> pokes ps"

text \<open>The blitter of the core (rtl/blitter.sv), one store per clock.\<close>

partial_function (option) blit_loop ::
  "Blitter \<Rightarrow> u16 \<Rightarrow> u16 \<Rightarrow> u16 \<Rightarrow> (int \<Rightarrow> u16) \<Rightarrow> (int \<Rightarrow> u16) option" where
  "blit_loop b next_addr span_count repeat_count m =
     (if repeat_count > blit_repeat b then Some m
      else if 16384 \<le> next_addr then None
      else if span_count = blit_span b
      then blit_loop b (next_addr + blit_skip b) 0 (repeat_count + 1) (m(uint next_addr := blit_value b))
      else blit_loop b (next_addr + 1) (span_count + 1) repeat_count (m(uint next_addr := blit_value b)))"

definition blit_submit :: "Blitter \<Rightarrow> 'a gfx_scheme \<Rightarrow> 'a gfx_scheme option" where
  "blit_submit b s = map_option (\<lambda>m. s\<lparr>tiles := m\<rparr>) (blit_loop b (blit_addr b) 0 0 (tiles s))"

subsection \<open>Contexts and pages\<close>

definition gfx_push :: "'a gfx_scheme \<Rightarrow> 'a gfx_scheme option" where
  "gfx_push s =
     (if context_idx s < NUM_CTX
      then let i = context_idx s + 1
           in if 0 \<le> i \<and> i < int (length (contexts s))
              then Some (s\<lparr>context_idx := i, contexts := (contexts s)[nat i := cur s],
                          ctx := nat i\<rparr>)
              else None
      else Some (s\<lparr>context_idx := context_idx s + 1\<rparr>))"

definition gfx_pop :: "'a gfx_scheme \<Rightarrow> 'a gfx_scheme" where
  "gfx_pop s =
     (let s1 = (if context_idx s > 0 then s\<lparr>context_idx := context_idx s - 1\<rparr> else s)
      in if context_idx s1 < NUM_CTX then s1\<lparr>ctx := nat (context_idx s1)\<rparr> else s1)"

definition gfx_pageflip :: "'a gfx_scheme \<Rightarrow> 'a gfx_scheme option" where
  "gfx_pageflip s =
     (let page_back = page_front s;
          front = (if page_front s \<noteq> 0 then 0 else 1);
          c = page_tile_ctrl s ! unat front
      in gfx_push (s\<lparr>page_front := front, tile_ctrl := c,
           vram := page_vram s ! unat page_back, context_idx := 0\<rparr>))"

subsection \<open>Primitives\<close>

definition gfx_pen :: "u8 \<Rightarrow> 'a gfx_scheme \<Rightarrow> 'a gfx_scheme" where
  "gfx_pen color s = upd_cur (\<lambda>c. c\<lparr>pen := color\<rparr>) s"

definition base_addr :: "'a gfx_scheme \<Rightarrow> u16" where
  "base_addr s = of_int (vram s)"

definition gfx_clear :: "'a gfx_scheme \<Rightarrow> 'a gfx_scheme option" where
  "gfx_clear s =
     (let c = cur s;
          ofs = of_int (uint (ry c) * TILE_MAX_W + uint (rx c))
      in blit_submit \<lparr>blit_value = 0x0020, blit_span = rw c - 1,
           blit_skip = of_int TILE_MAX_W - (rw c - 1), blit_repeat = rh c - 1,
           blit_addr = base_addr s + ofs\<rparr> s)"

text \<open>The pen colour in the high byte of a tile, and the offset of a position in the window.\<close>

definition pen_color :: "Context \<Rightarrow> u16" where
  "pen_color c = push_bit 8 (ucast (pen c))"

definition tile_ofs :: "Context \<Rightarrow> u16 \<Rightarrow> u16 \<Rightarrow> int" where
  "tile_ofs c x y = (uint (ry c) + uint y) * TILE_MAX_W + uint x + uint (rx c)"

definition gfx_rect :: "u16 \<Rightarrow> u16 \<Rightarrow> u16 \<Rightarrow> u16 \<Rightarrow> 'a gfx_scheme \<Rightarrow> 'a gfx_scheme option" where
  "gfx_rect x y w h s =
     (let c = cur s;
          ofs = of_int (tile_ofs c x y)
      in blit_submit \<lparr>blit_value = pen_color c OR 0x20, blit_span = w - 1,
           blit_skip = of_int TILE_MAX_W - (w - 1), blit_repeat = h - 1,
           blit_addr = base_addr s + ofs\<rparr> s)"

definition gfx_frame :: "u16 \<Rightarrow> u16 \<Rightarrow> u16 \<Rightarrow> u16 \<Rightarrow> 'a gfx_scheme \<Rightarrow> 'a gfx_scheme option" where
  "gfx_frame x y w h s =
     (let color = pen_color (cur s);
          ofs = tile_ofs (cur s) x y;
          W = uint w;
          last = ofs + TILE_MAX_W + TILE_MAX_W * int (length [1..uint h - 2])
      in pokes ([(ofs, color OR CHR_TL), (ofs + W - 1, color OR CHR_TR)] @
           map (\<lambda>c. (ofs + c, color OR CHR_HORIZ)) [1..W - 2] @
           concat (map (\<lambda>r. [(ofs + TILE_MAX_W * r, color OR CHR_VERT),
                             (ofs + TILE_MAX_W * r + W - 1, color OR CHR_VERT)]) [1..uint h - 2]) @
           [(last, color OR CHR_BL), (last + W - 1, color OR CHR_BR)] @
           map (\<lambda>c. (last + c, color OR CHR_HORIZ)) [1..W - 2]) s)"

text \<open>The loops of gfx_image both run to the height.\<close>

definition gfx_image ::
  "u8 \<Rightarrow> u8 \<Rightarrow> u16 \<Rightarrow> u16 \<Rightarrow> u16 \<Rightarrow> u16 \<Rightarrow> 'a gfx_scheme \<Rightarrow> 'a gfx_scheme option" where
  "gfx_image tile color x y w h s =
     (let tiledata = push_bit 8 (ucast color) OR ucast tile;
          ofs = tile_ofs (cur s) x y
      in pokes (concat (map (\<lambda>y2. map (\<lambda>x2.
             (ofs + TILE_MAX_W * int y2 + int x2, tiledata + of_nat (y2 * unat h + x2)))
           [0..<unat h]) [0..<unat h])) s)"

definition gfx_display_border :: "'a gfx_scheme \<Rightarrow> 'a gfx_scheme option" where
  "gfx_display_border s =
     (let c = cur s;
          color = pen_color c;
          y3 = uint (rh c) div 3;
          ofs = uint (ry c) * TILE_MAX_W + uint (rx c) + uint (rw c) div 2;
          ofs2 = ofs + TILE_MAX_W * (uint (rh c) - 1);
          ofs3 = (uint (ry c) + (y3 - 1)) * TILE_MAX_W + uint (rx c);
          ofs4 = ofs3 + (y3 + 1) * TILE_MAX_W
      in pokes [(ofs, color OR CHR_TOP), (ofs + 1, color OR CHR_TOP),
           (ofs2, color OR CHR_BOT), (ofs2 + 1, color OR CHR_BOT),
           (ofs3, color OR CHR_LEFT), (ofs3 + uint (rw c) - 1, color OR CHR_RIGHT),
           (ofs4, color OR CHR_LEFT), (ofs4 + uint (rw c) - 1, color OR CHR_RIGHT)] s)"

subsection \<open>Windows\<close>

definition gfx_align_box ::
  "u32 \<Rightarrow> u16 \<Rightarrow> u16 \<Rightarrow> u16 \<Rightarrow> u16 \<Rightarrow> 'a gfx_scheme \<Rightarrow> u16 \<times> u16" where
  "gfx_align_box align xadj yadj w h s =
     (let c = cur s
      in (if has_flag align ALIGN_CENTER
          then of_int ((uint (rw c) - uint w) div 2 + sint xadj)
          else if has_flag align ALIGN_RIGHT
          then of_int ((uint (rw c) - uint w) - sint xadj)
          else xadj,
          if has_flag align ALIGN_MIDDLE
          then of_int ((uint (rh c) - uint h) div 2 + sint yadj)
          else if has_flag align ALIGN_BOTTOM
          then of_int ((uint (rh c) - uint h) - sint yadj)
          else yadj))"

definition gfx_begin_window ::
  "u32 \<Rightarrow> u16 \<Rightarrow> u16 \<Rightarrow> u16 \<Rightarrow> u16 \<Rightarrow> u16 \<Rightarrow> 'a gfx_scheme \<Rightarrow> 'a gfx_scheme option" where
  "gfx_begin_window align x y w h frame s =
     do {
       s1 \<leftarrow> gfx_push s;
       let (bx, by) = gfx_align_box align x y w h s1;
       let s2 = upd_cur (\<lambda>c. c\<lparr>rx := bx, ry := by, rw := w, rh := h\<rparr>) s1;
       if 0 <s frame
       then do {
         s3 \<leftarrow> gfx_frame 0 0 w h s2;
         Some (upd_cur (\<lambda>c. c\<lparr>rx := rx c + frame, ry := ry c + frame,
                              rw := rw c - push_bit 1 frame, rh := rh c - push_bit 1 frame\<rparr>) s3)
       }
       else Some s2
     }"

definition gfx_end_window :: "'a gfx_scheme \<Rightarrow> 'a gfx_scheme" where
  "gfx_end_window s = gfx_pop s"

subsection \<open>Text\<close>

text \<open>The store loop of gfx_text_aligned: tile offset and column move together, both 16 bits wide.\<close>

fun put_chars ::
  "char list \<Rightarrow> u16 \<Rightarrow> u16 \<Rightarrow> 'a gfx_scheme \<Rightarrow> (u16 \<times> 'a gfx_scheme) option" where
  "put_chars [] ofs x s = Some (x, s)"
| "put_chars (c # str) ofs x s =
     poke (uint ofs) (pen_color (cur s) OR scast (of_char c :: u8)) s
       \<bind> put_chars str (ofs + 1) (x + 1)"

definition gfx_text_aligned :: "u32 \<Rightarrow> char list \<Rightarrow> 'a gfx_scheme \<Rightarrow> 'a gfx_scheme option" where
  "gfx_text_aligned align str s =
     (let s1 = (if sameline (cur s)
                then upd_cur (\<lambda>c. c\<lparr>sameline := False,
                       ctx_y := (if ctx_y c > 0 then ctx_y c - 1 else 0)\<rparr>) s
                else upd_cur (\<lambda>c. c\<lparr>prevx := 0\<rparr>) s);
          c = cur s1;
          x = (if has_flag align ALIGN_LEFT then prevx c
               else if has_flag align ALIGN_RIGHT then of_int (uint (rw c) - int (length str))
               else if has_flag align ALIGN_CENTER
               then of_int ((uint (rw c) - int (length str)) div 2)
               else 0);
          ofs = of_int ((uint (ry c) + uint (ctx_y c)) * TILE_MAX_W + uint x + uint (rx c))
      in do {
           (x1, s2) \<leftarrow> put_chars str ofs x s1;
           Some (upd_cur (\<lambda>c. c\<lparr>ctx_y := ctx_y c + 1, prevx := x1\<rparr>) s2)
         })"

definition gfx_text :: "char list \<Rightarrow> 'a gfx_scheme \<Rightarrow> 'a gfx_scheme option" where
  "gfx_text str s = gfx_text_aligned ALIGN_LEFT str s"

text \<open>The local buffer is 40 bytes; what it holds before the call is overwritten up to the
  terminator.\<close>

definition gfx_textf_aligned ::
  "u32 \<Rightarrow> char list \<Rightarrow> va list \<Rightarrow> 'a gfx_scheme \<Rightarrow> 'a gfx_scheme option" where
  "gfx_textf_aligned align fmt args s =
     (case vsnprintf (Some (replicate 40 NUL)) 40 fmt args of
        Some (_, _, Some tmp, _) \<Rightarrow> gfx_text_aligned align (takeWhile (\<lambda>c. c \<noteq> NUL) tmp) s
      | _ \<Rightarrow> None)"

definition gfx_textf :: "char list \<Rightarrow> va list \<Rightarrow> 'a gfx_scheme \<Rightarrow> 'a gfx_scheme option" where
  "gfx_textf fmt args s = gfx_textf_aligned ALIGN_LEFT fmt args s"

definition gfx_sameline :: "'a gfx_scheme \<Rightarrow> 'a gfx_scheme" where
  "gfx_sameline s = upd_cur (\<lambda>c. c\<lparr>sameline := True\<rparr>) s"

definition gfx_newline :: "u32 \<Rightarrow> 'a gfx_scheme \<Rightarrow> 'a gfx_scheme" where
  "gfx_newline n s = upd_cur (\<lambda>c. c\<lparr>ctx_y := ctx_y c + ucast n\<rparr>) s"

end
