(* ===== verification/Gfx_Draw.thy ===== *)
theory Gfx_Draw
  imports Gfx
begin

text \<open>
  What the primitives of gfx.c draw: the blitter fills exactly its rectangle and ends, text lands
  at its row and column, and every primitive keeps to the page it draws on. The relation between
  two points of a frame that the later theories use for whole screens is defined here.
\<close>

subsection \<open>The blitter\<close>

text \<open>Tile memory after whole rows and the first tiles of the next row are filled.\<close>

definition filled :: "u16 \<Rightarrow> nat \<Rightarrow> nat \<Rightarrow> nat \<Rightarrow> nat \<Rightarrow> (int \<Rightarrow> u16) \<Rightarrow> int \<Rightarrow> u16" where
  "filled v A w r c m = (\<lambda>a.
     if (\<exists>i<r. \<exists>j<w. a = int (A + 128 * i + j)) \<or> (\<exists>j<c. a = int (A + 128 * r + j)) then v else m a)"

lemma filled_start [simp]: "filled v A w 0 0 m = m"
  by (simp add: filled_def)

lemma filled_next: "(filled v A w r c m)(int (A + 128 * r + c) := v) = filled v A w r (Suc c) m"
  by (auto simp: filled_def fun_eq_iff less_Suc_eq)

lemma filled_row: "filled v A w r w m = filled v A w (Suc r) 0 m"
  by (auto simp: filled_def fun_eq_iff less_Suc_eq)

lemma unat_of_nat16: "n < 65536 \<Longrightarrow> unat (of_nat n :: u16) = n"
  by (simp add: unat_of_nat take_bit_nat_eq_self)

lemma uint_of_nat16: "n < 65536 \<Longrightarrow> uint (of_nat n :: u16) = int n"
  by (simp add: unsigned_of_nat take_bit_nat_eq_self)

lemma blit_loop_fill:
  assumes "sp < 65536" "rp < 65535" "A + 128 * rp + sp < 16384"
    and "r \<le> Suc rp" "c \<le> sp" "r = Suc rp \<Longrightarrow> c = 0"
    and b: "blit_value b = v" "blit_span b = of_nat sp" "blit_repeat b = of_nat rp"
      "blit_skip b = 128 - of_nat sp"
  shows "blit_loop b (of_nat (A + 128 * r + c)) (of_nat c) (of_nat r) (filled v A (Suc sp) r c m) =
    Some (filled v A (Suc sp) (Suc rp) 0 m)"
  using assms(4-6)
proof (induction "(Suc rp - r) * Suc sp - c" arbitrary: r c rule: less_induct)
  case less
  show ?case
  proof (cases "r = Suc rp")
    case True
    have "(of_nat rp :: u16) < of_nat (Suc rp)"
      using assms(2) by (simp only: word_less_nat_alt unat_of_nat16)
    then show ?thesis
      using True less.prems by (subst blit_loop.simps) (simp add: b)
  next
    case False
    define a where "a = A + 128 * r + c"
    have r: "r \<le> rp"
      using False less.prems by auto
    have a: "a < 16384"
      using less.prems assms(3) r unfolding a_def by linarith
    have lo: "\<not> of_nat rp < (of_nat r :: u16)"
      using r assms(2) by (simp add: word_less_nat_alt unat_of_nat16)
    have addr: "\<not> 16384 \<le> (of_nat a :: u16)" "uint (of_nat a :: u16) = int a"
      using a by (simp_all add: word_le_nat_alt unat_of_nat16 uint_of_nat16)
    have fill: "(filled v A (Suc sp) r c m)(int a := v) = filled v A (Suc sp) r (Suc c) m"
      unfolding a_def by (rule filled_next)
    show ?thesis
    proof (cases "c = sp")
      case True
      have nx: "of_nat a + blit_skip b = (of_nat (A + 128 * Suc r + 0) :: u16)"
        using True by (simp add: b a_def)
      have "Suc rp - r = Suc (Suc rp - Suc r)"
        using r by simp
      then have "(Suc rp - Suc r) * Suc sp - 0 < (Suc rp - r) * Suc sp - c"
        using True by (simp only: mult_Suc)
      then have "blit_loop b (of_nat (A + 128 * Suc r + 0)) (of_nat 0) (of_nat (Suc r))
          (filled v A (Suc sp) (Suc r) 0 m) = Some (filled v A (Suc sp) (Suc rp) 0 m)"
        using r by (intro less.hyps) auto
      then have ih: "blit_loop b (of_nat (A + 128 * Suc r + 0)) 0 (of_nat r + 1)
          (filled v A (Suc sp) (Suc r) 0 m) = Some (filled v A (Suc sp) (Suc rp) 0 m)"
        by (simp add: add.commute)
      have "blit_loop b (of_nat a) (of_nat c) (of_nat r) (filled v A (Suc sp) r c m) =
          blit_loop b (of_nat a + blit_skip b) 0 (of_nat r + 1)
            ((filled v A (Suc sp) r c m)(int a := v))"
        using True lo addr by (subst blit_loop.simps) (simp add: b)
      also have "\<dots> = Some (filled v A (Suc sp) (Suc rp) 0 m)"
        unfolding nx fill using ih True filled_row [of v A "Suc sp" r m]
        by (simp only:)
      finally show ?thesis
        by (simp only: a_def)
    next
      case c: False
      have ne: "(of_nat c :: u16) \<noteq> of_nat sp"
        using c less.prems(2) assms(1) by (subst of_nat_eq_iff_close) auto
      have "1 * Suc sp \<le> (Suc rp - r) * Suc sp"
        using r by (intro mult_right_mono) auto
      then have "(Suc rp - r) * Suc sp - Suc c < (Suc rp - r) * Suc sp - c"
        using less.prems(2) by simp
      then have ih: "blit_loop b (of_nat (A + 128 * r + Suc c)) (of_nat (Suc c)) (of_nat r)
          (filled v A (Suc sp) r (Suc c) m) = Some (filled v A (Suc sp) (Suc rp) 0 m)"
        using r less.prems c by (intro less.hyps) auto
      have "blit_loop b (of_nat a) (of_nat c) (of_nat r) (filled v A (Suc sp) r c m) =
          blit_loop b (of_nat a + 1) (of_nat c + 1) (of_nat r)
            ((filled v A (Suc sp) r c m)(int a := v))"
        using ne lo addr by (subst blit_loop.simps) (simp add: b)
      also have "\<dots> = Some (filled v A (Suc sp) (Suc rp) 0 m)"
        using ih unfolding fill by (simp add: a_def add_ac)
      finally show ?thesis
        by (simp only: a_def)
    qed
  qed
qed

lemma blit_submit_fill:
  assumes "sp < 65536" "rp < 65535" "A + 128 * rp + sp < 16384"
  shows "blit_submit \<lparr>blit_value = v, blit_span = of_nat sp, blit_skip = 128 - of_nat sp,
      blit_repeat = of_nat rp, blit_addr = of_nat A\<rparr> s =
    Some (s\<lparr>tiles := filled v A (Suc sp) (Suc rp) 0 (tiles s)\<rparr>)"
  using blit_loop_fill [OF assms, of 0 0] by (simp add: blit_submit_def)


subsection \<open>Exact drawing\<close>

definition page_ok :: "'a gfx_scheme \<Rightarrow> bool" where
  "page_ok s \<longleftrightarrow> vram s = 0 \<or> vram s = 8192"

text \<open>Tile memory with the rectangle of tiles at an offset filled with one value.\<close>

definition fill_rect :: "int \<Rightarrow> int \<Rightarrow> int \<Rightarrow> u16 \<Rightarrow> (int \<Rightarrow> u16) \<Rightarrow> int \<Rightarrow> u16" where
  "fill_rect A w h v m = (\<lambda>a.
     if \<exists>i j. 0 \<le> i \<and> i < h \<and> 0 \<le> j \<and> j < w \<and> a = A + 128 * i + j then v else m a)"

lemma filled_fill_rect: "filled v A w h 0 m = fill_rect (int A) (int w) (int h) v m"
proof
  fix a
  have "(\<exists>i<h. \<exists>j<w. a = int (A + 128 * i + j)) \<longleftrightarrow>
    (\<exists>i j. 0 \<le> i \<and> i < int h \<and> 0 \<le> j \<and> j < int w \<and> a = int A + 128 * i + j)"
    (is "?L \<longleftrightarrow> ?R")
  proof
    assume ?L
    then obtain i j where "i < h" "j < w" "a = int (A + 128 * i + j)"
      by blast
    then show ?R
      by (intro exI [of _ "int i"] exI [of _ "int j"]) simp
  next
    assume ?R
    then obtain i j where "0 \<le> i" "i < int h" "0 \<le> j" "j < int w" "a = int A + 128 * i + j"
      by blast
    then show ?L
      by (intro exI [of _ "nat i"] conjI exI [of _ "nat j"]) auto
  qed
  then show "filled v A w h 0 m a = fill_rect (int A) (int w) (int h) v m a"
    by (simp add: filled_def fill_rect_def)
qed

lemma pred_of_nat:
  fixes w :: u16
  assumes "unat w = Suc n"
  shows "w - 1 = of_nat n"
proof -
  have "w = of_nat (unat w)"
    by simp
  also have "\<dots> = of_nat n + 1"
    by (simp add: assms)
  finally show ?thesis
    by simp
qed

lemma blit_rect:
  assumes "page_ok s" "0 \<le> ofs" "0 < w" "0 < h" "ofs + 128 * (uint h - 1) + uint w \<le> 8192"
  shows "blit_submit \<lparr>blit_value = v, blit_span = w - 1, blit_skip = of_int TILE_MAX_W - (w - 1),
      blit_repeat = h - 1, blit_addr = base_addr s + of_int ofs\<rparr> s =
    Some (s\<lparr>tiles := fill_rect (vram s + ofs) (uint w) (uint h) v (tiles s)\<rparr>)"
proof -
  define A where "A = nat (vram s + ofs)"
  have A: "int A = vram s + ofs"
    using assms(1,2) by (auto simp: A_def page_ok_def)
  have w: "w \<noteq> 0" "h \<noteq> 0" "0 < unat w" "0 < unat h"
    using assms(3,4) by (auto simp: word_less_nat_alt)
  obtain sp rp where n: "unat w = Suc sp" "unat h = Suc rp"
    using w by (metis gr0_conv_Suc)
  then have uw: "uint w = 1 + int sp" "uint h = 1 + int rp"
    by (simp_all add: uint_nat)
  then have bound: "A + 128 * rp + sp < 16384"
    using assms(1,5) A by (auto simp: page_ok_def)
  have "of_int (vram s + ofs) = (of_nat A :: u16)"
    by (simp only: A [symmetric] of_int_of_nat_eq)
  then have "base_addr s + of_int ofs = of_nat A"
    by (simp add: base_addr_def)
  then have "blit_submit \<lparr>blit_value = v, blit_span = w - 1, blit_skip = of_int TILE_MAX_W - (w - 1),
      blit_repeat = h - 1, blit_addr = base_addr s + of_int ofs\<rparr> s =
    Some (s\<lparr>tiles := filled v A (Suc sp) (Suc rp) 0 (tiles s)\<rparr>)"
    using blit_submit_fill [of sp rp A v s] bound
    by (simp only: pred_of_nat [OF n(1)] pred_of_nat [OF n(2)] TILE_MAX_W_def n) simp
  then show ?thesis
    using uw by (simp add: filled_fill_rect A add.commute)
qed

lemma gfx_rect_fill:
  assumes "page_ok s" "0 < w" "0 < h"
    and "uint (rx (cur s)) + uint x + uint w \<le> 128" "uint (ry (cur s)) + uint y + uint h \<le> 64"
  shows "gfx_rect x y w h s = Some (s\<lparr>tiles := fill_rect (vram s + tile_ofs (cur s) x y)
     (uint w) (uint h) (pen_color (cur s) OR 0x20) (tiles s)\<rparr>)"
  using assms unfolding gfx_rect_def Let_def
  by (intro blit_rect) (simp_all add: tile_ofs_def TILE_MAX_W_def)

lemma gfx_clear_fill:
  assumes "page_ok s" "0 < rw (cur s)" "0 < rh (cur s)"
    and "uint (rx (cur s)) + uint (rw (cur s)) \<le> 128" "uint (ry (cur s)) + uint (rh (cur s)) \<le> 64"
  shows "gfx_clear s = Some (s\<lparr>tiles := fill_rect (vram s + tile_ofs (cur s) 0 0)
     (uint (rw (cur s))) (uint (rh (cur s))) 0x20 (tiles s)\<rparr>)"
proof -
  have "gfx_clear s = Some (s\<lparr>tiles := fill_rect (vram s + (uint (ry (cur s)) * TILE_MAX_W + uint (rx (cur s))))
     (uint (rw (cur s))) (uint (rh (cur s))) 0x20 (tiles s)\<rparr>)"
    using assms unfolding gfx_clear_def Let_def
    by (intro blit_rect) (simp_all add: TILE_MAX_W_def)
  then show ?thesis
    by (simp add: tile_ofs_def)
qed


subsection \<open>Drawing from a state\<close>

text \<open>
  What drawing may do between two points of a frame: the contexts opened since the first point are
  known, those below it and the tiles outside the current page are as they were, and the rest of
  the state is untouched.
\<close>

definition gfx_wf :: "'a gfx_scheme \<Rightarrow> bool" where
  "gfx_wf s \<longleftrightarrow> length (contexts s) = 8 \<and> 0 \<le> context_idx s \<and> context_idx s < 8 \<and>
     ctx s = nat (context_idx s) \<and> page_ok s"

definition drawn ::
  "'a gfx_scheme \<Rightarrow> Context list \<Rightarrow> (nat \<Rightarrow> MenuContext) \<Rightarrow> 'a gfx_scheme \<Rightarrow> bool" where
  "drawn s stk ms s' \<longleftrightarrow> gfx_wf s \<and> stk \<noteq> [] \<and> ctx s + length stk \<le> 8 \<and>
     (\<exists>ts cs. s' = s\<lparr>contexts := cs, context_idx := context_idx s + int (length stk) - 1,
         ctx := ctx s + length stk - 1, tiles := ts, menus := ms\<rparr> \<and>
       length cs = 8 \<and> (\<forall>i < ctx s. cs ! i = contexts s ! i) \<and>
       (\<forall>i < length stk. cs ! (ctx s + i) = rev stk ! i) \<and>
       (\<forall>a. \<not> (vram s \<le> a \<and> a < vram s + 8192) \<longrightarrow> ts a = tiles s a))"

lemma drawn_refl: "gfx_wf s \<Longrightarrow> drawn s [cur s] (menus s) s"
  by (auto simp: drawn_def gfx_wf_def cur_def intro!: exI [of _ "tiles s"] exI [of _ "contexts s"])

lemma drawnE:
  assumes "drawn s (c # r) ms s'"
  obtains "cur s' = c" "vram s' = vram s" "menus s' = ms" "gfx_wf s'" "gfx_wf s"
    "ctx s' = ctx s + length r" "context_idx s' = context_idx s + int (length r)"
    "gamepad_pressed s' = gamepad_pressed s"
proof -
  obtain ts cs where d: "s' = s\<lparr>contexts := cs, context_idx := context_idx s + int (length r),
         ctx := ctx s + length r, tiles := ts, menus := ms\<rparr>"
       "length cs = 8" "\<forall>i < Suc (length r). cs ! (ctx s + i) = rev (c # r) ! i"
       "gfx_wf s" "ctx s + Suc (length r) \<le> 8"
    using assms by (auto simp: drawn_def)
  have "rev (c # r) ! length r = c"
    by (simp add: nth_append)
  then have "cur s' = c"
    using d by (simp add: cur_def)
  moreover have "gfx_wf s'"
    using d(2,4,5) by (auto simp: d(1) gfx_wf_def page_ok_def)
  ultimately show ?thesis
    using that d by simp
qed

lemma drawn_upd:
  assumes "drawn s (c # r) ms s'"
  shows "drawn s (f c # r) ms (upd_cur f s')"
proof -
  obtain cur: "cur s' = c" "ctx s' = ctx s + length r"
    using assms by (rule drawnE)
  obtain ts cs where d: "s' = s\<lparr>contexts := cs, context_idx := context_idx s + int (length r),
         ctx := ctx s + length r, tiles := ts, menus := ms\<rparr>"
       "length cs = 8" "\<forall>i < ctx s. cs ! i = contexts s ! i"
       "\<forall>i < Suc (length r). cs ! (ctx s + i) = rev (c # r) ! i"
       "gfx_wf s" "ctx s + Suc (length r) \<le> 8"
       "\<forall>a. \<not> (vram s \<le> a \<and> a < vram s + 8192) \<longrightarrow> ts a = tiles s a"
    using assms by (auto simp: drawn_def)
  have "cs[ctx s + length r := f c] ! (ctx s + i) = rev (f c # r) ! i" if "i < Suc (length r)" for i
    using d(4,6) that d(2) by (auto simp: nth_append nth_list_update less_Suc_eq)
  moreover have "upd_cur f s' = s\<lparr>contexts := cs[ctx s + length r := f c],
      context_idx := context_idx s + int (length r), ctx := ctx s + length r, tiles := ts, menus := ms\<rparr>"
    using cur by (simp add: upd_cur_def d(1))
  ultimately show ?thesis
    unfolding drawn_def using d
    by (intro conjI exI [of _ ts] exI [of _ "cs[ctx s + length r := f c]"]) auto
qed

lemma drawn_tiles:
  assumes "drawn s (c # r) ms s'"
    and "\<And>a. \<not> (vram s \<le> a \<and> a < vram s + 8192) \<Longrightarrow> ts a = tiles s' a"
  shows "drawn s (c # r) ms (s'\<lparr>tiles := ts\<rparr>)"
proof -
  obtain ts0 cs where d: "s' = s\<lparr>contexts := cs, context_idx := context_idx s + int (length r),
         ctx := ctx s + length r, tiles := ts0, menus := ms\<rparr>"
       "length cs = 8" "\<forall>i < ctx s. cs ! i = contexts s ! i"
       "\<forall>i < Suc (length r). cs ! (ctx s + i) = rev (c # r) ! i"
       "gfx_wf s" "ctx s + Suc (length r) \<le> 8"
       "\<forall>a. \<not> (vram s \<le> a \<and> a < vram s + 8192) \<longrightarrow> ts0 a = tiles s a"
    using assms(1) by (auto simp: drawn_def)
  then show ?thesis
    unfolding drawn_def using assms(2)
    by (intro conjI exI [of _ ts] exI [of _ cs]) auto
qed

lemma drawn_poke:
  assumes "drawn s (c # r) ms s'" "0 \<le> ofs" "ofs < 8192"
  shows "returns (poke ofs v s') (drawn s (c # r) ms)"
proof -
  obtain v: "vram s' = vram s" "gfx_wf s"
    using assms(1) by (rule drawnE)
  then have "0 \<le> vram s' + ofs" "vram s' + ofs < 16384"
    using assms(2,3) by (auto simp: gfx_wf_def page_ok_def)
  moreover have "drawn s (c # r) ms (s'\<lparr>tiles := (tiles s')(vram s' + ofs := v)\<rparr>)"
    using assms v by (intro drawn_tiles) auto
  ultimately show ?thesis
    by (simp add: poke_def)
qed

lemma drawn_pokes:
  assumes "drawn s (c # r) ms s'" "\<forall>(ofs, v) \<in> set ps. 0 \<le> ofs \<and> ofs < 8192"
  shows "returns (pokes ps s') (drawn s (c # r) ms)"
  using assms
proof (induction ps arbitrary: s')
  case (Cons p ps)
  obtain ofs v where p: "p = (ofs, v)"
    by (cases p)
  have "returns (poke ofs v s') (drawn s (c # r) ms)"
    using Cons.prems by (intro drawn_poke) (auto simp: p)
  then show ?case
    unfolding p pokes.simps using Cons.prems Cons.IH by (auto intro: returns_bind)
qed simp

lemma drawn_pen: "drawn s (c # r) ms s' \<Longrightarrow> drawn s (c\<lparr>pen := p\<rparr> # r) ms (gfx_pen p s')"
  unfolding gfx_pen_def by (rule drawn_upd)

lemma drawn_newline:
  "drawn s (c # r) ms s' \<Longrightarrow> drawn s (c\<lparr>ctx_y := ctx_y c + ucast n\<rparr> # r) ms (gfx_newline n s')"
  unfolding gfx_newline_def by (rule drawn_upd)

lemma drawn_fill_rect:
  assumes "drawn s (c # r) ms s'" "0 \<le> ofs" "ofs + 128 * (h - 1) + w \<le> 8192"
  shows "drawn s (c # r) ms (s'\<lparr>tiles := fill_rect (vram s' + ofs) w h v (tiles s')\<rparr>)"
proof (rule drawn_tiles [OF assms(1)])
  obtain v: "vram s' = vram s"
    using assms(1) by (rule drawnE)
  fix a
  assume "\<not> (vram s \<le> a \<and> a < vram s + 8192)"
  then show "fill_rect (vram s' + ofs) w h v (tiles s') a = tiles s' a"
    using assms(2,3) unfolding fill_rect_def v by auto
qed

definition box_ok :: "Context \<Rightarrow> bool" where
  "box_ok c \<longleftrightarrow> 0 < rw c \<and> 0 < rh c \<and> uint (rx c) + uint (rw c) \<le> 128 \<and> uint (ry c) + uint (rh c) \<le> 64"

lemma drawn_rect:
  assumes "drawn s (c # r) ms s'" "0 < w" "0 < h"
    and "uint (rx c) + uint x + uint w \<le> 128" "uint (ry c) + uint y + uint h \<le> 64"
  shows "returns (gfx_rect x y w h s') (drawn s (c # r) ms)"
proof -
  obtain c: "cur s' = c" "gfx_wf s'"
    using assms(1) by (rule drawnE)
  then show ?thesis
    using assms gfx_rect_fill [of s' w h x y]
    by (simp add: gfx_wf_def drawn_fill_rect tile_ofs_def TILE_MAX_W_def)
qed

lemma drawn_clear:
  assumes "drawn s (c # r) ms s'" "box_ok c"
  shows "returns (gfx_clear s') (drawn s (c # r) ms)"
proof -
  obtain c: "cur s' = c" "gfx_wf s'"
    using assms(1) by (rule drawnE)
  then show ?thesis
    using assms gfx_clear_fill [of s']
    by (simp add: gfx_wf_def drawn_fill_rect tile_ofs_def TILE_MAX_W_def box_ok_def)
qed

lemma uint_pos: "0 \<le> uint (w :: 'a::len word)"
  by simp

lemma tile_ofs_split:
  obtains X Y where "0 \<le> X" "0 \<le> Y" "X = uint (rx c) + uint x" "Y = uint (ry c) + uint y"
    "tile_ofs c x y = 128 * Y + X"
  using that [of "uint (rx c) + uint x" "uint (ry c) + uint y"] by (simp add: tile_ofs_def TILE_MAX_W_def)

lemma drawn_frame:
  assumes "drawn s (c # r) ms s'" "1 < w" "1 < h"
    and "uint (rx c) + uint x + uint w \<le> 128" "uint (ry c) + uint y + uint h \<le> 64"
  shows "returns (gfx_frame x y w h s') (drawn s (c # r) ms)"
proof -
  obtain c: "cur s' = c"
    using assms(1) by (rule drawnE)
  obtain X Y where t: "0 \<le> X" "0 \<le> Y" "X = uint (rx c) + uint x" "Y = uint (ry c) + uint y"
    "tile_ofs c x y = 128 * Y + X"
    by (rule tile_ofs_split)
  define W where "W = uint w"
  define H where "H = uint h"
  have "1 < W" "1 < H" "X + W \<le> 128" "Y + H \<le> 64"
    using assms by (simp_all add: word_less_def W_def H_def t)
  then show ?thesis
    unfolding gfx_frame_def Let_def c t(5) W_def [symmetric] H_def [symmetric] using t(1,2)
    by (intro drawn_pokes [OF assms(1)]) (auto simp: TILE_MAX_W_def)
qed

lemma drawn_image:
  assumes "drawn s (c # r) ms s'"
    and "uint (rx c) + uint x + uint h \<le> 128" "uint (ry c) + uint y + uint h \<le> 64"
  shows "returns (gfx_image tile color x y w h s') (drawn s (c # r) ms)"
proof -
  obtain c: "cur s' = c"
    using assms(1) by (rule drawnE)
  obtain X Y where t: "0 \<le> X" "0 \<le> Y" "X = uint (rx c) + uint x" "Y = uint (ry c) + uint y"
    "tile_ofs c x y = 128 * Y + X"
    by (rule tile_ofs_split)
  define n where "n = unat h"
  have "X + int n \<le> 128" "Y + int n \<le> 64"
    using assms by (simp_all add: t n_def)
  then show ?thesis
    unfolding gfx_image_def Let_def c t(5) n_def [symmetric] using t(1,2)
    by (intro drawn_pokes [OF assms(1)]) (auto simp: TILE_MAX_W_def)
qed

lemma drawn_border:
  assumes "drawn s (c # r) ms s'" "box_ok c" "3 \<le> rh c" "3 \<le> rw c"
  shows "returns (gfx_display_border s') (drawn s (c # r) ms)"
proof -
  obtain c: "cur s' = c"
    using assms(1) by (rule drawnE)
  define X Y W H where "X = uint (rx c)" and "Y = uint (ry c)" and "W = uint (rw c)" and "H = uint (rh c)"
  note d = this
  have "0 \<le> X" "0 \<le> Y" "3 \<le> W" "3 \<le> H" "X + W \<le> 128" "Y + H \<le> 64"
    using assms by (simp_all add: d box_ok_def word_le_def)
  moreover define h3 where "h3 = H div 3"
  moreover define w2 where "w2 = W div 2"
  ultimately have "1 \<le> h3" "3 * h3 \<le> H" "1 \<le> w2" "w2 + 2 \<le> W"
    by auto
  then show ?thesis
    unfolding gfx_display_border_def Let_def c d [symmetric] h3_def [symmetric] w2_def [symmetric]
    using \<open>0 \<le> X\<close> \<open>0 \<le> Y\<close> \<open>X + W \<le> 128\<close> \<open>Y + H \<le> 64\<close>
    by (intro drawn_pokes [OF assms(1)]) (auto simp: TILE_MAX_W_def)
qed


subsection \<open>Windows and text\<close>

lemma drawn_push:
  assumes "drawn s (c # r) ms s'" "context_idx s + int (length r) < 7"
  shows "returns (gfx_push s') (drawn s (c # c # r) ms)"
proof -
  obtain cur: "cur s' = c" "ctx s' = ctx s + length r" "context_idx s' = context_idx s + int (length r)"
      "gfx_wf s" "gfx_wf s'"
    using assms(1) by (rule drawnE)
  obtain ts cs where d: "s' = s\<lparr>contexts := cs, context_idx := context_idx s + int (length r),
         ctx := ctx s + length r, tiles := ts, menus := ms\<rparr>"
       "length cs = 8" "\<forall>i < ctx s. cs ! i = contexts s ! i"
       "\<forall>i < Suc (length r). cs ! (ctx s + i) = rev (c # r) ! i"
       "\<forall>a. \<not> (vram s \<le> a \<and> a < vram s + 8192) \<longrightarrow> ts a = tiles s a"
    using assms(1) by (auto simp: drawn_def)
  let ?n = "ctx s + Suc (length r)"
  have n: "nat (context_idx s + int (length r) + 1) = ?n" "?n < 8"
    using cur(4) assms(2) by (auto simp: gfx_wf_def)
  have push: "gfx_push s' = Some (s\<lparr>contexts := cs[?n := c], context_idx := context_idx s + int (length r) + 1,
         ctx := ?n, tiles := ts, menus := ms\<rparr>)"
    using cur assms(2) d(2) n
    by (auto simp: gfx_push_def d(1) NUM_CTX_def Let_def gfx_wf_def cur_def)
  have "cs[?n := c] ! (ctx s + i) = rev (c # c # r) ! i" if "i < Suc (Suc (length r))" for i
    using d(2,4) that n(2) by (auto simp: nth_append nth_list_update less_Suc_eq)
  then show ?thesis
    unfolding push returns_Some drawn_def using cur d n
    by (intro conjI exI [of _ ts] exI [of _ "cs[?n := c]"]) auto
qed

lemma drawn_pop:
  assumes "drawn s (c # d # r) ms s'"
  shows "drawn s (d # r) ms (gfx_pop s')"
proof -
  obtain cur: "gfx_wf s" "gfx_wf s'" "context_idx s' = context_idx s + int (length (d # r))"
    using assms(1) by (rule drawnE)
  obtain ts cs where e: "s' = s\<lparr>contexts := cs, context_idx := 1 + (context_idx s + int (length r)),
         ctx := ctx s + Suc (length r), tiles := ts, menus := ms\<rparr>"
       "length cs = 8" "\<forall>i < ctx s. cs ! i = contexts s ! i"
       "\<forall>i < Suc (Suc (length r)). cs ! (ctx s + i) = rev (c # d # r) ! i"
       "\<forall>a. \<not> (vram s \<le> a \<and> a < vram s + 8192) \<longrightarrow> ts a = tiles s a"
       "ctx s + Suc (Suc (length r)) \<le> 8"
    using assms(1) by (auto simp: drawn_def add_ac)
  have n: "nat (context_idx s + int (length r)) = ctx s + length r"
    using cur(1) by (auto simp: gfx_wf_def)
  have "gfx_pop s' = s\<lparr>contexts := cs, context_idx := context_idx s + int (length r),
         ctx := ctx s + length r, tiles := ts, menus := ms\<rparr>"
    using cur e(2,6) n by (auto simp: gfx_pop_def e(1) NUM_CTX_def Let_def gfx_wf_def)
  moreover have "cs ! (ctx s + i) = rev (d # r) ! i" if "i < Suc (length r)" for i
    using e(4) that by (auto simp: nth_append)
  ultimately show ?thesis
    unfolding drawn_def using cur e
    by (intro conjI exI [of _ ts] exI [of _ cs]) auto
qed

text \<open>The context of a new window.\<close>

definition window_ctx :: "u32 \<Rightarrow> u16 \<Rightarrow> u16 \<Rightarrow> u16 \<Rightarrow> u16 \<Rightarrow> Context \<Rightarrow> Context" where
  "window_ctx align x y w h c =
     c\<lparr>rx := (if has_flag align ALIGN_CENTER then of_int ((uint (rw c) - uint w) div 2 + sint x)
             else if has_flag align ALIGN_RIGHT then of_int ((uint (rw c) - uint w) - sint x) else x),
       ry := (if has_flag align ALIGN_MIDDLE then of_int ((uint (rh c) - uint h) div 2 + sint y)
             else if has_flag align ALIGN_BOTTOM then of_int ((uint (rh c) - uint h) - sint y) else y),
       rw := w, rh := h\<rparr>"

lemma drawn_begin_plain:
  assumes "drawn s (c # r) ms s'" "context_idx s + int (length r) < 7" "\<not> 0 <s n"
  shows "returns (gfx_begin_window align x y w h n s') (drawn s (window_ctx align x y w h c # c # r) ms)"
  unfolding gfx_begin_window_def
proof (rule returns_bind [OF drawn_push [OF assms(1,2)]])
  fix s1
  assume a: "drawn s (c # c # r) ms s1"
  then obtain c: "cur s1 = c"
    by (rule drawnE)
  show "returns (let (bx, by) = gfx_align_box align x y w h s1;
         s2 = upd_cur (\<lambda>c. c\<lparr>rx := bx, ry := by, rw := w, rh := h\<rparr>) s1
       in if 0 <s n
       then do {
         s3 \<leftarrow> gfx_frame 0 0 w h s2;
         Some (upd_cur (\<lambda>c. c\<lparr>rx := rx c + n, ry := ry c + n,
                              rw := rw c - push_bit 1 n, rh := rh c - push_bit 1 n\<rparr>) s3)
       }
       else Some s2) (drawn s (window_ctx align x y w h c # c # r) ms)"
    using drawn_upd [OF a, of "\<lambda>d. d\<lparr>rx := rx (window_ctx align x y w h c),
        ry := ry (window_ctx align x y w h c), rw := w, rh := h\<rparr>"] assms(3)
    by (simp add: gfx_align_box_def c window_ctx_def Let_def)
qed

lemmas drawn_begin_window = drawn_begin_plain [where n = 0, simplified]

definition framed :: "u16 \<Rightarrow> Context \<Rightarrow> Context" where
  "framed n c = c\<lparr>rx := rx c + n, ry := ry c + n, rw := rw c - push_bit 1 n, rh := rh c - push_bit 1 n\<rparr>"

lemma drawn_begin_frame:
  assumes "drawn s (c # r) ms s'" "context_idx s + int (length r) < 7" "1 < w" "1 < h" "0 <s n"
    and "uint (rx (window_ctx align x y w h c)) + uint w \<le> 128"
    and "uint (ry (window_ctx align x y w h c)) + uint h \<le> 64"
  shows "returns (gfx_begin_window align x y w h n s')
    (drawn s (framed n (window_ctx align x y w h c) # c # r) ms)"
  unfolding gfx_begin_window_def
proof (rule returns_bind [OF drawn_push [OF assms(1,2)]])
  fix s1
  assume a: "drawn s (c # c # r) ms s1"
  then obtain c: "cur s1 = c"
    by (rule drawnE)
  define s2 where "s2 = upd_cur (\<lambda>d. d\<lparr>rx := rx (window_ctx align x y w h c),
        ry := ry (window_ctx align x y w h c), rw := w, rh := h\<rparr>) s1"
  have "drawn s (window_ctx align x y w h c # c # r) ms s2"
    using drawn_upd [OF a, of "\<lambda>d. d\<lparr>rx := rx (window_ctx align x y w h c),
        ry := ry (window_ctx align x y w h c), rw := w, rh := h\<rparr>"]
    by (simp add: s2_def window_ctx_def)
  then have "returns (gfx_frame 0 0 w h s2) (drawn s (window_ctx align x y w h c # c # r) ms)"
    using assms by (intro drawn_frame) auto
  then have "returns (do { s3 \<leftarrow> gfx_frame 0 0 w h s2; Some (upd_cur (framed n) s3) })
      (drawn s (framed n (window_ctx align x y w h c) # c # r) ms)"
    by (rule returns_bind) (simp add: drawn_upd)
  moreover have "gfx_align_box align x y w h s1 =
      (rx (window_ctx align x y w h c), ry (window_ctx align x y w h c))"
    by (simp add: gfx_align_box_def c window_ctx_def Let_def)
  ultimately show "returns (let (bx, by) = gfx_align_box align x y w h s1;
         s2 = upd_cur (\<lambda>c. c\<lparr>rx := bx, ry := by, rw := w, rh := h\<rparr>) s1
       in if 0 <s n
       then do {
         s3 \<leftarrow> gfx_frame 0 0 w h s2;
         Some (upd_cur (\<lambda>c. c\<lparr>rx := rx c + n, ry := ry c + n,
                              rw := rw c - push_bit 1 n, rh := rh c - push_bit 1 n\<rparr>) s3)
       }
       else Some s2) (drawn s (framed n (window_ctx align x y w h c) # c # r) ms)"
    using assms(5) by (simp only: Let_def prod.case s2_def [symmetric] framed_def [abs_def] if_True)
qed

lemma pokes_tiles:
  "pokes ps s = Some s' \<Longrightarrow> a - vram s \<notin> fst ` set ps \<Longrightarrow> tiles s' a = tiles s a"
proof (induction ps arbitrary: s)
  case (Cons p ps)
  obtain ofs v where p: "p = (ofs, v)"
    by (cases p)
  obtain s1 where "poke ofs v s = Some s1" "pokes ps s1 = Some s'"
    using Cons.prems(1) by (auto simp: p bind_eq_Some_conv)
  moreover from this have "vram s1 = vram s" "tiles s1 a = tiles s a"
    using Cons.prems(2) by (auto simp: poke_def Let_def p split: if_splits)
  ultimately show ?case
    using Cons.IH [of s1] Cons.prems(2) by simp
qed simp

text \<open>The tiles of a rectangle's border, counted from its upper left corner.\<close>

definition on_border :: "int \<Rightarrow> int \<Rightarrow> int \<Rightarrow> bool" where
  "on_border w h d \<longleftrightarrow> (\<exists>i j. 0 \<le> i \<and> i < h \<and> 0 \<le> j \<and> j < w \<and> d = 128 * i + j \<and>
     (i = 0 \<or> i = h - 1 \<or> j = 0 \<or> j = w - 1))"

lemma gfx_frame_border:
  assumes "gfx_frame x y w h s = Some s'" "1 < w" "1 < h" "tiles s' a \<noteq> tiles s a"
  shows "on_border (uint w) (uint h) (a - (vram s + tile_ofs (cur s) x y))"
proof -
  define W H d where "W = uint w" and "H = uint h" and "d = tile_ofs (cur s) x y"
  have wh: "1 < W" "1 < H"
    using assms(2,3) by (simp_all add: W_def H_def word_less_def)
  have b: "on_border W H (128 * i + j)"
    if "0 \<le> i" "i < H" "0 \<le> j" "j < W" "i = 0 \<or> i = H - 1 \<or> j = 0 \<or> j = W - 1" for i j
    using that unfolding on_border_def by blast
  have last: "TILE_MAX_W + TILE_MAX_W * int (length [1..H - 2]) = 128 * (H - 1)"
    using wh by (simp add: TILE_MAX_W_def)
  note p = assms(1) [unfolded gfx_frame_def Let_def, folded W_def H_def d_def, unfolded add.assoc last]
  have "a - vram s \<in> fst ` set ps" if "pokes ps s = Some s'" for ps
    using pokes_tiles [OF that] assms(4) by blast
  note this [OF p]
  moreover obtain e where a: "a = vram s + d + e"
    by (metis add.commute diff_add_cancel)
  ultimately have "e \<in> {0, W - 1} \<union> {1..W - 2} \<union> {128 * (H - 1), 128 * (H - 1) + (W - 1)} \<union>
      (+) (128 * (H - 1)) ` {1..W - 2} \<or> (\<exists>i \<in> {1..H - 2}. e = 128 * i \<or> e = 128 * i + (W - 1))"
    by (auto simp: TILE_MAX_W_def)
  then have "on_border W H e"
    using wh b [of 0 e] b [of "H - 1" 0] b [of "H - 1" "W - 1"] b [of "H - 1" "e - 128 * (H - 1)"] b [of _ 0] b [of _ "W - 1"] by auto
  then show ?thesis
    by (simp add: W_def H_def d_def a)
qed

lemma begin_window_tiles:
  fixes s :: "'a gfx_scheme"
  assumes "gfx_begin_window align x y w h n s = Some s1" "gfx_wf s"
    and "0 <s n \<longrightarrow> 1 < w \<and> 1 < h" "tiles s1 a \<noteq> tiles s a"
  shows "0 <s n \<and> on_border (uint w) (uint h) (a - (vram s + tile_ofs (window_ctx align x y w h (cur s)) 0 0))"
proof -
  define W where "W = window_ctx align x y w h (cur s)"
  obtain s0 where s0: "gfx_push s = Some s0" "cur s0 = cur s" "tiles s0 = tiles s" "vram s0 = vram s"
    "ctx s0 < length (contexts s0)"
    using assms(1,2)
    by (auto simp: gfx_begin_window_def gfx_push_def gfx_wf_def cur_def Let_def split: if_splits bind_splits)
  define s2 where "s2 = upd_cur (\<lambda>c. c\<lparr>rx := rx W, ry := ry W, rw := w, rh := h\<rparr>) s0"
  have s2: "cur s2 = W" "tiles s2 = tiles s" "vram s2 = vram s"
    using s0 by (simp_all add: s2_def W_def window_ctx_def cur_def upd_cur_def)
  have box: "gfx_align_box align x y w h s0 = (rx W, ry W)"
    by (simp add: gfx_align_box_def s0(2) W_def window_ctx_def Let_def)
  have "0 <s n"
    using assms(1,4) s2(2) by (auto simp: gfx_begin_window_def s0(1) box s2_def [symmetric] split: if_splits)
  moreover have "tiles (upd_cur f g) = tiles g" for f and g :: "'a gfx_scheme"
    by (simp add: upd_cur_def)
  ultimately obtain s3 where s3: "gfx_frame 0 0 w h s2 = Some s3" "tiles s3 = tiles s1"
    using assms(1) by (auto simp: gfx_begin_window_def s0(1) box s2_def [symmetric] bind_eq_Some_conv)
  then show ?thesis
    using gfx_frame_border [OF s3(1), of a] assms(3,4) s2 \<open>0 <s n\<close> by (simp add: W_def)
qed

text \<open>Tile memory with a text stored at an address.\<close>

definition write_text :: "int \<Rightarrow> u16 \<Rightarrow> char list \<Rightarrow> (int \<Rightarrow> u16) \<Rightarrow> int \<Rightarrow> u16" where
  "write_text A color str m = (\<lambda>a.
     if A \<le> a \<and> a < A + int (length str) then color OR scast (of_char (str ! nat (a - A)) :: u8) else m a)"

lemma write_text_Nil [simp]: "write_text A color [] m = m"
  by (auto simp: write_text_def fun_eq_iff)

lemma write_text_Cons:
  "write_text (A + 1) color str (m(A := color OR scast (of_char c :: u8))) = write_text A color (c # str) m"
proof
  fix a
  have "nat (a - A) = Suc (nat (a - (A + 1)))" if "A + 1 \<le> a"
    using that by (simp add: nat_eq_iff)
  then show "write_text (A + 1) color str (m(A := color OR scast (of_char c :: u8))) a =
      write_text A color (c # str) m a"
    by (cases "A + 1 \<le> a") (auto simp: write_text_def)
qed

lemma put_chars_exact:
  assumes "page_ok s" "uint ofs + int (length str) \<le> 8192"
  shows "put_chars str ofs x s = Some (x + of_nat (length str),
     s\<lparr>tiles := write_text (vram s + uint ofs) (pen_color (cur s)) str (tiles s)\<rparr>)"
  using assms
proof (induction str arbitrary: ofs x s)
  case Nil
  then show ?case
    by simp
next
  case (Cons c str)
  have v: "0 \<le> vram s + uint ofs" "vram s + uint ofs < 16384"
    using Cons.prems by (auto simp: page_ok_def)
  have "uint ofs < 8192"
    using Cons.prems by simp
  then have ofs: "uint (ofs + 1) = uint ofs + 1"
    by (simp add: uint_plus_if')
  define m where "m = (tiles s)(vram s + uint ofs := pen_color (cur s) OR scast (of_char c :: u8))"
  have "put_chars str (ofs + 1) (x + 1) (s\<lparr>tiles := m\<rparr>) = Some (x + 1 + of_nat (length str),
      s\<lparr>tiles := write_text (vram s + uint ofs + 1) (pen_color (cur s)) str m\<rparr>)"
    using Cons.prems Cons.IH [of "s\<lparr>tiles := m\<rparr>" "ofs + 1" "x + 1"]
    by (simp add: ofs page_ok_def cur_def add.assoc)
  moreover have "write_text (vram s + uint ofs + 1) (pen_color (cur s)) str m =
      write_text (vram s + uint ofs) (pen_color (cur s)) (c # str) (tiles s)"
    unfolding m_def by (rule write_text_Cons)
  ultimately show ?case
    using v by (simp add: poke_def Let_def m_def [symmetric] add.assoc)
qed

definition text_x :: "u32 \<Rightarrow> char list \<Rightarrow> Context \<Rightarrow> u16" where
  "text_x align str c =
     (if has_flag align ALIGN_LEFT then 0
      else if has_flag align ALIGN_RIGHT then of_int (uint (rw c) - int (length str))
      else if has_flag align ALIGN_CENTER then of_int ((uint (rw c) - int (length str)) div 2)
      else 0)"

definition text_ctx :: "u32 \<Rightarrow> char list \<Rightarrow> Context \<Rightarrow> Context" where
  "text_ctx align str c =
     c\<lparr>ctx_y := ctx_y c + 1, prevx := text_x align str c + of_nat (length str)\<rparr>"

lemma cur_upd_cur: "ctx s < length (contexts s) \<Longrightarrow> cur (upd_cur f s) = f (cur s)"
  by (simp add: cur_def upd_cur_def)

lemma upd_cur_frame [simp]:
  "vram (upd_cur f s) = vram s" "tiles (upd_cur f s) = tiles s" "ctx (upd_cur f s) = ctx s"
  "length (contexts (upd_cur f s)) = length (contexts s)"
  "upd_cur g (s\<lparr>tiles := ts\<rparr>) = (upd_cur g s)\<lparr>tiles := ts\<rparr>"
  by (simp_all add: upd_cur_def cur_def)

lemma upd_cur_twice: "ctx s < length (contexts s) \<Longrightarrow> upd_cur g (upd_cur f s) = upd_cur (\<lambda>c. g (f c)) s"
  by (simp add: upd_cur_def cur_def)

lemma gfx_text_eq:
  assumes "gfx_wf s" "\<not> sameline (cur s)"
    and "(uint (ry (cur s)) + uint (ctx_y (cur s))) * 128 + uint (text_x align str (cur s)) +
      uint (rx (cur s)) + int (length str) \<le> 8192"
  shows "gfx_text_aligned align str s = Some ((upd_cur (text_ctx align str) s)\<lparr>tiles :=
      write_text (vram s + (uint (ry (cur s)) + uint (ctx_y (cur s))) * 128 +
        uint (text_x align str (cur s)) + uint (rx (cur s))) (pen_color (cur s)) str (tiles s)\<rparr>)"
proof -
  define c where "c = (cur s)\<lparr>prevx := 0\<rparr>"
  define s1 where "s1 = upd_cur (\<lambda>c. c\<lparr>prevx := 0\<rparr>) s"
  define N where "N = (uint (ry (cur s)) + uint (ctx_y (cur s))) * 128 +
      uint (text_x align str (cur s)) + uint (rx (cur s))"
  have len: "ctx s < length (contexts s)"
    using assms(1) by (auto simp: gfx_wf_def)
  have cur1: "cur s1 = c" "page_ok s1"
    using len assms(1) by (simp_all add: s1_def c_def cur_upd_cur gfx_wf_def page_ok_def)
  have s1: "vram s1 = vram s" "tiles s1 = tiles s"
    by (simp_all add: s1_def)
  have "0 \<le> N" "N + int (length str) \<le> 8192"
    using assms(3) by (simp_all add: N_def)
  then have "uint (of_int N :: u16) = N"
    by (simp add: unsigned_of_int take_bit_int_eq_self)
  then have "put_chars str (of_int N) (text_x align str (cur s)) s1 =
      Some (text_x align str (cur s) + of_nat (length str),
        s1\<lparr>tiles := write_text (vram s + N) (pen_color (cur s)) str (tiles s)\<rparr>)"
    using put_chars_exact [OF cur1(2), of "of_int N" str] \<open>N + int (length str) \<le> 8192\<close>
    by (simp add: cur1 s1 c_def pen_color_def)
  moreover have "gfx_text_aligned align str s =
     do {
       (x1, s2) \<leftarrow> put_chars str (of_int N) (text_x align str (cur s)) s1;
       Some (upd_cur (\<lambda>c. c\<lparr>ctx_y := ctx_y c + 1, prevx := x1\<rparr>) s2)
     }"
    using assms(2) cur1(1)
    by (simp add: gfx_text_aligned_def s1_def [symmetric] c_def text_x_def N_def TILE_MAX_W_def Let_def)
  moreover have "upd_cur (\<lambda>c. c\<lparr>ctx_y := ctx_y c + 1,
      prevx := text_x align str (cur s) + of_nat (length str)\<rparr>) s = upd_cur (text_ctx align str) s"
    by (simp add: upd_cur_def text_ctx_def)
  ultimately show ?thesis
    using len by (simp add: s1_def upd_cur_twice N_def add.assoc)
qed

lemma drawn_text:
  assumes "drawn s (c # r) ms s'" "\<not> sameline c"
    and "(uint (ry c) + uint (ctx_y c)) * 128 + uint (text_x align str c) + uint (rx c) +
      int (length str) \<le> 8192"
  shows "returns (gfx_text_aligned align str s') (drawn s (text_ctx align str c # r) ms)"
proof -
  obtain c: "cur s' = c" "gfx_wf s'" "vram s' = vram s"
    using assms(1) by (rule drawnE)
  define N where "N = (uint (ry c) + uint (ctx_y c)) * 128 + uint (text_x align str c) + uint (rx c)"
  have "0 \<le> N" "N + int (length str) \<le> 8192"
    using assms(3) by (simp_all add: N_def)
  then have "drawn s (text_ctx align str c # r) ms ((upd_cur (text_ctx align str) s')\<lparr>tiles :=
      write_text (vram s + N) (pen_color c) str (tiles s')\<rparr>)"
    by (intro drawn_tiles drawn_upd assms(1)) (auto simp: write_text_def)
  then show ?thesis
    using gfx_text_eq [OF c(2), of align str] assms(2,3) c
    by (simp add: N_def add.assoc)
qed

lemma drawn_textf:
  assumes "drawn s (c # r) ms s'" "\<not> sameline c" "format_out 0 fmt args = Some (t, [])"
    and "length t < 40" "NUL \<notin> set t"
    and "(uint (ry c) + uint (ctx_y c)) * 128 + uint (text_x align t c) + uint (rx c) +
      int (length t) \<le> 8192"
  shows "returns (gfx_textf_aligned align fmt args s') (drawn s (text_ctx align t c # r) ms)"
proof -
  have "vsnprintf (Some (replicate 40 NUL)) 40 fmt args = Some (of_nat (length t), (),
      Some (t @ NUL # drop (Suc (length t)) (replicate 40 NUL)), [])"
    using vsnprintf_text [OF assms(3), of 40 "replicate 40 NUL"] assms(4)
    by (simp add: PRINTF_MAX_POSSIBLE_BUFFER_SIZE_def min_def)
  moreover have "takeWhile (\<lambda>c. c \<noteq> NUL) (t @ NUL # u) = t" for u
    using assms(5) by (subst takeWhile_append2) auto
  ultimately show ?thesis
    using drawn_text [OF assms(1,2,6)] by (simp add: gfx_textf_aligned_def)
qed

subsection \<open>Properties\<close>

text \<open>A screen as the 240p mode sets it up, drawing on the second page.\<close>

definition demo_ctx :: Context where
  "demo_ctx = \<lparr>pen = 3, sameline = False, rx = 0, ry = 0, rw = 40, rh = 30, ctx_y = 0, prevx = 0,
     highlighted = 0, menuctx = None\<rparr>"

definition demo_gfx :: gfx where
  "demo_gfx = \<lparr>gamepad_prev = 0, gamepad = 0, gamepad_pressed = 0, gamepad_released = 0,
     tile_ctrl = \<lparr>hofs = - 31, vofs = - 6\<rparr>,
     page_tile_ctrl = [\<lparr>hofs = - 31, vofs = - 6\<rparr>, \<lparr>hofs = - 31, vofs = 506\<rparr>],
     page_vram = [0, 8192], vram = 8192, page_front = 0, contexts = replicate 8 demo_ctx,
     context_idx = 1, ctx = 1, tiles = (\<lambda>_. 0), menus = (\<lambda>_. INIT_MENU_CONTEXT)\<rparr>"

lemma demo_simps:
  "gfx_wf demo_gfx" "page_ok demo_gfx" "cur demo_gfx = demo_ctx" "vram demo_gfx = 8192"
  "tiles demo_gfx = (\<lambda>_. 0)" "context_idx demo_gfx = 1"
  by (simp_all add: gfx_wf_def demo_gfx_def page_ok_def cur_def)

text \<open>C28. A rectangle that lies on the page is filled exactly: the blitter stops, every tile of the
  rectangle gets the space character in the pen's colour, and no other tile changes.\<close>

theorem gfx_rect_exact:
  assumes "page_ok s" "0 < w" "0 < h"
    and "uint (rx (cur s)) + uint x + uint w \<le> 128" "uint (ry (cur s)) + uint y + uint h \<le> 64"
  shows "\<exists>s'. gfx_rect x y w h s = Some s' \<and>
     (\<forall>a. tiles s' a =
        (if \<exists>i j. 0 \<le> i \<and> i < uint h \<and> 0 \<le> j \<and> j < uint w \<and>
             a = vram s + tile_ofs (cur s) x y + 128 * i + j
         then push_bit 8 (ucast (pen (cur s))) OR 0x20 else tiles s a)) \<and>
     s'\<lparr>tiles := tiles s\<rparr> = s"
  using gfx_rect_fill [OF assms] by (simp add: fill_rect_def pen_color_def)

theorem gfx_rect_exact_witness:
  "\<exists>s'. gfx_rect 5 6 11 4 demo_gfx = Some s' \<and> tiles s' (8192 + 128 * 9 + 15) = 0x320 \<and>
     tiles s' (8192 + 128 * 10 + 15) = 0"
proof -
  obtain s' where s': "gfx_rect 5 6 11 4 demo_gfx = Some s'" and
    t: "\<forall>a. tiles s' a = (if \<exists>i j. 0 \<le> i \<and> i < uint (4 :: u16) \<and> 0 \<le> j \<and> j < uint (11 :: u16) \<and>
             a = vram demo_gfx + tile_ofs (cur demo_gfx) 5 6 + 128 * i + j
         then push_bit 8 (ucast (pen (cur demo_gfx))) OR 0x20 else tiles demo_gfx a)"
    using gfx_rect_exact [of demo_gfx 11 4 5 6] by (auto simp: demo_simps demo_ctx_def)
  have "\<exists>i j. 0 \<le> i \<and> i < uint (4 :: u16) \<and> 0 \<le> j \<and> j < uint (11 :: u16) \<and>
      8192 + 128 * 9 + 15 = vram demo_gfx + tile_ofs (cur demo_gfx) 5 6 + 128 * i + j"
    by (intro exI [of _ 3] exI [of _ 10]) (simp add: demo_simps demo_ctx_def tile_ofs_def TILE_MAX_W_def)
  moreover have "\<not> (\<exists>i j. 0 \<le> i \<and> i < uint (4 :: u16) \<and> 0 \<le> j \<and> j < uint (11 :: u16) \<and>
      8192 + 128 * 10 + 15 = vram demo_gfx + tile_ofs (cur demo_gfx) 5 6 + 128 * i + j)"
    by (auto simp: demo_simps demo_ctx_def tile_ofs_def TILE_MAX_W_def)
  ultimately show ?thesis
    using s' t by (simp add: demo_simps demo_ctx_def)
qed

text \<open>C29. A text that ends before the end of the page is stored character by character, in the pen's
  colour, on the window's current line at the column its alignment gives; no other tile changes and
  the line counter moves on by one.\<close>

theorem gfx_text_exact:
  assumes "gfx_wf s" "\<not> sameline (cur s)"
    and "(uint (ry (cur s)) + uint (ctx_y (cur s))) * 128 + uint (text_x align str (cur s)) +
      uint (rx (cur s)) + int (length str) \<le> 8192"
  shows "\<exists>s'. gfx_text_aligned align str s = Some s' \<and> cur s' = text_ctx align str (cur s) \<and>
     tiles s' = write_text (vram s + tile_ofs (cur s) (text_x align str (cur s)) (ctx_y (cur s)))
       (push_bit 8 (ucast (pen (cur s)))) str (tiles s)"
proof -
  have "ctx s < length (contexts s)"
    using assms(1) by (auto simp: gfx_wf_def)
  then have "cur ((upd_cur (text_ctx align str) s)\<lparr>tiles := m\<rparr>) = text_ctx align str (cur s)" for m
    using cur_upd_cur [of s] by (simp add: cur_def)
  then show ?thesis
    using gfx_text_eq [OF assms] by (simp add: tile_ofs_def TILE_MAX_W_def pen_color_def add.assoc)
qed

theorem gfx_text_exact_witness:
  "\<exists>s'. gfx_text_aligned ALIGN_CENTER ''Hello!'' demo_gfx = Some s' \<and>
     tiles s' = write_text (8192 + 17) 0x300 ''Hello!'' (\<lambda>_. 0)"
  using gfx_text_exact [of demo_gfx ALIGN_CENTER "''Hello!''"]
  by (auto simp: demo_simps demo_ctx_def text_x_def align_defs has_flag_def tile_ofs_def TILE_MAX_W_def)

text \<open>C30. Opening a window, framed or not, and closing it again restores the drawing context and the
  contexts below it, whatever the window's size and place. A window without a frame may lie anywhere and
  leaves the tiles alone; one with a frame has at least two rows and columns and lies on the page, draws
  inside its frame, and changes no tile but those of its border.\<close>

theorem window_restores_context:
  fixes align :: u32 and x y w h n :: u16 and s :: "'a gfx_scheme"
  assumes "gfx_wf s" "context_idx s < 7"
  defines "c \<equiv> window_ctx align x y w h (cur s)"
  assumes "0 <s n \<longrightarrow> 1 < w \<and> 1 < h \<and> uint (rx c) + uint w \<le> 128 \<and> uint (ry c) + uint h \<le> 64"
  shows "\<exists>s1. gfx_begin_window align x y w h n s = Some s1 \<and>
     cur s1 = (if 0 <s n then framed n c else c) \<and>
     cur (gfx_end_window s1) = cur s \<and> context_idx (gfx_end_window s1) = context_idx s \<and>
     (\<forall>i < ctx s. contexts (gfx_end_window s1) ! i = contexts s ! i) \<and>
     (\<forall>a. tiles (gfx_end_window s1) a = tiles s a \<or>
        0 <s n \<and> on_border (uint w) (uint h) (a - (vram s + tile_ofs c 0 0)))"
proof -
  define d where "d = (if 0 <s n then framed n c else c)"
  obtain s1 where s1: "gfx_begin_window align x y w h n s = Some s1" "drawn s [d, cur s] (menus s) s1"
    using drawn_begin_plain [OF drawn_refl [OF assms(1)], of n align x y w h]
      drawn_begin_frame [OF drawn_refl [OF assms(1)], of w h n align x y] assms(2,4)
    by (cases "0 <s n") (auto simp: d_def c_def elim: returnsE)
  have e: "drawn s [cur s] (menus s) (gfx_end_window s1)"
    using s1(2) by (simp add: gfx_end_window_def drawn_pop)
  have "\<forall>a. tiles (gfx_end_window s1) a = tiles s a \<or>
        0 <s n \<and> on_border (uint w) (uint h) (a - (vram s + tile_ofs c 0 0))"
    using begin_window_tiles [OF s1(1) assms(1)] assms(4)
    by (auto simp: c_def gfx_end_window_def gfx_pop_def Let_def)
  moreover obtain "cur s1 = d"
    using s1(2) by (rule drawnE)
  moreover obtain "cur (gfx_end_window s1) = cur s"
      "context_idx (gfx_end_window s1) = context_idx s + int (length ([] :: Context list))"
    using e by (rule drawnE)
  moreover have "\<forall>i < ctx s. contexts (gfx_end_window s1) ! i = contexts s ! i"
    using e by (auto simp: drawn_def)
  ultimately show ?thesis
    using s1(1) by (simp add: d_def)
qed

theorem window_restores_context_witness:
  "\<exists>s1. gfx_begin_window (ALIGN_CENTER OR ALIGN_MIDDLE) 0 0 34 6 1 demo_gfx = Some s1 \<and> ry (cur s1) = 13 \<and> rw (cur s1) = 32 \<and>
     cur (gfx_end_window s1) = cur demo_gfx"
proof -
  have "window_ctx (ALIGN_CENTER OR ALIGN_MIDDLE) 0 0 34 6 demo_ctx = demo_ctx\<lparr>rx := 3, ry := 12, rw := 34, rh := 6\<rparr>"
    by (simp add: window_ctx_def demo_ctx_def align_defs has_flag_def)
  moreover have "0 <s (1 :: u16)"
    by (simp add: word_sless_alt)
  ultimately show ?thesis
    using window_restores_context [of demo_gfx 1 34 6 "ALIGN_CENTER OR ALIGN_MIDDLE" 0 0]
    by (auto simp: demo_simps framed_def)
qed
text \<open>C39. The guard of gfx_push is one too weak: with the last context in use it still passes, and the
  copy goes to the slot after the end of the array.\<close>

theorem gfx_push_overflow:
  assumes "context_idx s = 7" "length (contexts s) = 8"
  shows "context_idx s < NUM_CTX \<and> gfx_push s = None"
  using assms by (simp add: gfx_push_def NUM_CTX_def)

theorem gfx_push_overflow_witness: "gfx_push (demo_gfx\<lparr>context_idx := 7, ctx := 7\<rparr>) = None"
  using gfx_push_overflow [of "demo_gfx\<lparr>context_idx := 7, ctx := 7\<rparr>"] by (simp add: demo_gfx_def)

end
