(* ===== verification/Menu.thy ===== *)
theory Menu
  imports Gfx_Draw
begin

text \<open>
  Menus of gfx.c: the frame of a menu with the movement of its highlight, the items that cycle
  through options and the buttons. The menu context is the only state that lives from frame to
  frame; an option index belongs to the caller and is passed and returned.
\<close>

subsection \<open>Operations\<close>

definition upd_menu :: "nat \<Rightarrow> (MenuContext \<Rightarrow> MenuContext) \<Rightarrow> 'a gfx_scheme \<Rightarrow> 'a gfx_scheme" where
  "upd_menu i f s = s\<lparr>menus := (menus s)(i := f (menus s i))\<rparr>"

text \<open>The movement of the highlight in gfx_begin_menu.\<close>

definition menu_move :: "u16 \<Rightarrow> MenuContext \<Rightarrow> MenuContext" where
  "menu_move pressed m =
     (let m1 = (if has_flag pressed INPUT_UP
                then m\<lparr>menu_index := menu_index m - 1, tmp_option_idx := -1\<rparr> else m);
          m2 = (if has_flag pressed INPUT_DOWN
                then m1\<lparr>menu_index := menu_index m1 + 1, tmp_option_idx := -1\<rparr> else m1);
          m3 = (if menu_index m2 \<ge> menu_count m2 then m2\<lparr>menu_index := 0\<rparr> else m2);
          m4 = (if menu_index m3 < 0 then m3\<lparr>menu_index := menu_count m3 - 1\<rparr> else m3)
      in m4\<lparr>menu_count := 0\<rparr>)"

definition gfx_begin_menu ::
  "char list \<Rightarrow> u16 \<Rightarrow> u16 \<Rightarrow> nat \<Rightarrow> 'a gfx_scheme \<Rightarrow> 'a gfx_scheme option" where
  "gfx_begin_menu name w h i s =
     do {
       s1 \<leftarrow> gfx_begin_window (ALIGN_CENTER OR ALIGN_MIDDLE) 0 0 w h 1 (gfx_pen TEXT_BLUE s);
       let s2 = upd_cur (\<lambda>c. c\<lparr>menuctx := Some i\<rparr>) s1;
       let s3 = upd_menu i (menu_move (input_pressed s2)) s2;
       gfx_text_aligned ALIGN_CENTER name (gfx_pen TEXT_DARK_GRAY s3)
     }"

definition gfx_end_menu :: "'a gfx_scheme \<Rightarrow> 'a gfx_scheme" where
  "gfx_end_menu s = gfx_end_window s"

text \<open>The index of an option after the buttons of this frame.\<close>

definition option_move :: "u16 \<Rightarrow> int \<Rightarrow> int \<Rightarrow> int" where
  "option_move pressed num_options index =
     (let i1 = (if has_flag pressed INPUT_RIGHT then index + 1 else index);
          i2 = (if has_flag pressed INPUT_LEFT then i1 - 1 else i1);
          i3 = (if i2 < 0 then num_options - 1 else i2)
      in if i3 \<ge> num_options then 0 else i3)"

text \<open>The line of a select item: arrows around the label and the value, spaces in between. The
  local buffer holds 40 bytes.\<close>

definition select_line :: "int \<Rightarrow> char list \<Rightarrow> char list \<Rightarrow> char list" where
  "select_line width label value_str =
     (let space_len = width - (2 + int (length label) + int (length value_str));
          space_len = (if space_len < 0 then 0 else space_len)
      in [char_of (126 :: nat)] @ label @ replicate (nat space_len) CHR '' '' @ value_str @
         [char_of (127 :: nat)])"

definition gfx_menuitem_select_func ::
  "char list \<Rightarrow> int \<Rightarrow> (int \<Rightarrow> char list option) \<Rightarrow> int \<Rightarrow> 'a gfx_scheme
     \<Rightarrow> (bool \<times> int \<times> 'a gfx_scheme) option" where
  "gfx_menuitem_select_func label num_options item_to_string option_index s =
     (case menuctx (cur s) of
        None \<Rightarrow> Some (False, option_index, s)
      | Some i \<Rightarrow>
          let m = menus s i;
              selected = (menu_count m = menu_index m);
              index = (if selected then option_move (input_pressed s) num_options option_index
                       else option_index)
          in do {
               value_str \<leftarrow> item_to_string index;
               let txt = select_line (uint (rw (cur s))) label value_str;
               if length txt < 40 then do {
                 s1 \<leftarrow> gfx_text txt (gfx_pen (if selected then TEXT_GRAY OR TEXT_INVERT else TEXT_GRAY)
                          (gfx_newline 1 s));
                 Some (index \<noteq> option_index, index,
                   upd_menu i (\<lambda>m. m\<lparr>menu_count := menu_count m + 1\<rparr>) s1)
               } else None
             })"

definition menuitem_to_string_simple :: "char list list \<Rightarrow> int \<Rightarrow> char list option" where
  "menuitem_to_string_simple options index =
     (if 0 \<le> index \<and> index < int (length options) then Some (options ! nat index) else None)"

definition gfx_menuitem_select ::
  "char list \<Rightarrow> char list list \<Rightarrow> int \<Rightarrow> int \<Rightarrow> 'a gfx_scheme
     \<Rightarrow> (bool \<times> int \<times> 'a gfx_scheme) option" where
  "gfx_menuitem_select label options num_options option_index s =
     gfx_menuitem_select_func label num_options (menuitem_to_string_simple options) option_index s"

definition gfx_menuitem_button ::
  "char list \<Rightarrow> 'a gfx_scheme \<Rightarrow> (bool \<times> 'a gfx_scheme) option" where
  "gfx_menuitem_button label s =
     (case menuctx (cur s) of
        None \<Rightarrow> Some (False, s)
      | Some i \<Rightarrow>
          let m = menus s i;
              selected = (menu_count m = menu_index m);
              changed = (selected \<and> has_flag (input_pressed s) INPUT_OK)
          in do {
               s1 \<leftarrow> gfx_text_aligned ALIGN_CENTER label
                       (gfx_pen (if selected then TEXT_GRAY OR TEXT_INVERT else TEXT_GRAY)
                         (gfx_newline 1 s));
               Some (changed, upd_menu i (\<lambda>m. m\<lparr>menu_count := menu_count m + 1\<rparr>) s1)
             })"

subsection \<open>Movement\<close>

lemma option_move_range: "0 < n \<Longrightarrow> 0 \<le> i \<Longrightarrow> i < n \<Longrightarrow> 0 \<le> option_move p n i \<and> option_move p n i < n"
  by (auto simp: option_move_def Let_def)

text \<open>C32. A select item cycles through its options: right steps forward, left steps back, both wrap
  around, pressing both or neither keeps the option, and the index stays within the options.\<close>

theorem option_move_cycles:
  assumes "0 \<le> i" "i < n"
  shows "option_move p n i =
    (i + (if has_flag p INPUT_RIGHT then 1 else 0) - (if has_flag p INPUT_LEFT then 1 else 0)) mod n"
proof -
  have "(i + 1) mod n = (if i + 1 = n then 0 else i + 1)" "i mod n = i"
    using assms by auto
  moreover have "(i - 1) mod n = (if i = 0 then n - 1 else i - 1)"
    using assms by (auto simp: zmod_minus1)
  ultimately show ?thesis
    using assms by (auto simp: option_move_def Let_def)
qed

theorem option_move_cycles_witness: "option_move INPUT_LEFT 12 0 = 11 \<and> option_move INPUT_RIGHT 12 11 = 0"
  using option_move_cycles [of 0 12 INPUT_LEFT] option_move_cycles [of 11 12 INPUT_RIGHT]
  by (simp add: has_flag_def input_defs)

text \<open>C31. The highlight of a menu cycles through the items the previous frame has drawn, and from
  any context it is back on one of them as soon as a frame has drawn some: down steps forward, up steps
  back, both wrap around.\<close>

theorem menu_move_cycles:
  assumes "0 < menu_count m"
  shows "0 \<le> menu_index (menu_move p m) \<and> menu_index (menu_move p m) < menu_count m \<and>
    menu_count (menu_move p m) = 0 \<and>
    (0 \<le> menu_index m \<and> menu_index m < menu_count m \<longrightarrow>
     menu_index (menu_move p m) = (menu_index m + (if has_flag p INPUT_DOWN then 1 else 0) -
       (if has_flag p INPUT_UP then 1 else 0)) mod menu_count m)"
proof -
  define i n where "i = menu_index m" and "n = menu_count m"
  note d = this
  have e: "(i + 1) mod n = (if i + 1 = n then 0 else i + 1)" "i mod n = i"
    "(i - 1) mod n = (if i = 0 then n - 1 else i - 1)" if "0 \<le> i" "i < n"
    using that by (auto simp: zmod_minus1)
  show ?thesis
    using assms e by (auto simp: menu_move_def Let_def d [symmetric])
qed

theorem menu_move_cycles_witness:
  "menu_index (menu_move INPUT_UP \<lparr>menu_index = 0, menu_count = 5, tmp_option_idx = -1\<rparr>) = 4"
  using menu_move_cycles [of "\<lparr>menu_index = 0, menu_count = 5, tmp_option_idx = -1\<rparr>" INPUT_UP]
  by (simp add: has_flag_def input_defs)

lemma length_select_line:
  "length (select_line w label v) = max (nat w) (length label + length v + 2)"
  by (auto simp: select_line_def Let_def)

subsection \<open>Drawing menus\<close>

lemma drawn_upd_menu:
  assumes "drawn s (c # r) ms s'"
  shows "drawn s (c # r) (ms(i := f (ms i))) (upd_menu i f s')"
proof -
  obtain ts cs where d: "s' = s\<lparr>contexts := cs, context_idx := context_idx s + int (length r),
         ctx := ctx s + length r, tiles := ts, menus := ms\<rparr>"
       "length cs = 8" "\<forall>i < ctx s. cs ! i = contexts s ! i"
       "\<forall>i < Suc (length r). cs ! (ctx s + i) = rev (c # r) ! i"
       "gfx_wf s" "ctx s + Suc (length r) \<le> 8"
       "\<forall>a. \<not> (vram s \<le> a \<and> a < vram s + 8192) \<longrightarrow> ts a = tiles s a"
    using assms by (auto simp: drawn_def)
  then show ?thesis
    unfolding drawn_def
    by (intro conjI exI [of _ ts] exI [of _ cs]) (auto simp: upd_menu_def)
qed

lemma drawn_count:
  "drawn s (c # r) ms s' \<Longrightarrow> drawn s (c # r) (ms(i := (ms i)\<lparr>menu_count := menu_count (ms i) + 1\<rparr>))
     (upd_menu i (\<lambda>m. m\<lparr>menu_count := menu_count m + 1\<rparr>) s')"
  by (rule drawn_upd_menu)

lemma drawn_begin_menu:
  fixes c :: Context and i w h name
  defines "c1 \<equiv> framed 1 (window_ctx (ALIGN_CENTER OR ALIGN_MIDDLE) 0 0 w h (c\<lparr>pen := TEXT_BLUE\<rparr>))"
  defines "c2 \<equiv> c1\<lparr>menuctx := Some i, pen := TEXT_DARK_GRAY\<rparr>"
  assumes "drawn s (c # r) ms s'" "context_idx s + int (length r) < 7" "1 < w" "1 < h"
    and "uint (rx (window_ctx (ALIGN_CENTER OR ALIGN_MIDDLE) 0 0 w h (c\<lparr>pen := TEXT_BLUE\<rparr>))) + uint w \<le> 128"
    and "uint (ry (window_ctx (ALIGN_CENTER OR ALIGN_MIDDLE) 0 0 w h (c\<lparr>pen := TEXT_BLUE\<rparr>))) + uint h \<le> 64"
    and "\<not> sameline c2"
    and "(uint (ry c2) + uint (ctx_y c2)) * 128 + uint (text_x ALIGN_CENTER name c2) + uint (rx c2) +
      int (length name) \<le> 8192"
  shows "returns (gfx_begin_menu name w h i s')
    (drawn s (text_ctx ALIGN_CENTER name c2 # c\<lparr>pen := TEXT_BLUE\<rparr> # r)
      (ms(i := menu_move (gamepad_pressed s) (ms i))))"
  unfolding gfx_begin_menu_def
proof (rule returns_bind [OF drawn_begin_frame [OF drawn_pen [OF assms(3)]]])
  fix s1
  assume a: "drawn s (framed 1 (window_ctx (ALIGN_CENTER OR ALIGN_MIDDLE) 0 0 w h (c\<lparr>pen := TEXT_BLUE\<rparr>)) #
      c\<lparr>pen := TEXT_BLUE\<rparr> # r) ms s1"
  obtain p: "gamepad_pressed s1 = gamepad_pressed s"
    using a by (rule drawnE)
  define s2 where "s2 = gfx_pen TEXT_DARK_GRAY (upd_menu i (menu_move (input_pressed
     (upd_cur (\<lambda>c. c\<lparr>menuctx := Some i\<rparr>) s1))) (upd_cur (\<lambda>c. c\<lparr>menuctx := Some i\<rparr>) s1))"
  have "input_pressed (upd_cur (\<lambda>c. c\<lparr>menuctx := Some i\<rparr>) s1) = gamepad_pressed s"
    by (simp add: input_pressed_def upd_cur_def p)
  then have "drawn s ((c1\<lparr>menuctx := Some i\<rparr>)\<lparr>pen := TEXT_DARK_GRAY\<rparr> # c\<lparr>pen := TEXT_BLUE\<rparr> # r)
      (ms(i := menu_move (gamepad_pressed s) (ms i))) s2"
    unfolding s2_def using a [folded c1_def]
    by (simp only:) (intro drawn_pen drawn_upd_menu drawn_upd)
  then have d: "drawn s (c2 # c\<lparr>pen := TEXT_BLUE\<rparr> # r) (ms(i := menu_move (gamepad_pressed s) (ms i))) s2"
    by (simp add: c2_def)
  have "returns (gfx_text_aligned ALIGN_CENTER name s2)
      (drawn s (text_ctx ALIGN_CENTER name c2 # c\<lparr>pen := TEXT_BLUE\<rparr> # r)
        (ms(i := menu_move (gamepad_pressed s) (ms i))))"
    by (rule drawn_text [OF d assms(9,10)])
  then show "returns (let s2 = upd_cur (\<lambda>c. c\<lparr>menuctx := Some i\<rparr>) s1;
        s3 = upd_menu i (menu_move (input_pressed s2)) s2
      in gfx_text_aligned ALIGN_CENTER name (gfx_pen TEXT_DARK_GRAY s3))
     (drawn s (text_ctx ALIGN_CENTER name c2 # c\<lparr>pen := TEXT_BLUE\<rparr> # r)
       (ms(i := menu_move (gamepad_pressed s) (ms i))))"
    by (simp add: s2_def Let_def)
qed (use assms(4-8) in \<open>simp_all add: word_sless_alt\<close>)


lemma drawn_select_func:
  fixes c :: Context and label i ms index v n and s s' :: "'a gfx_scheme"
  defines "sel \<equiv> menu_count (ms i) = menu_index (ms i)"
  defines "c1 \<equiv> c\<lparr>ctx_y := ctx_y c + 1, pen := (if sel then TEXT_GRAY OR TEXT_INVERT else TEXT_GRAY)\<rparr>"
  defines "j \<equiv> (if sel then option_move (gamepad_pressed s) n index else index)"
  assumes "drawn s (c # r) ms s'" "menuctx c = Some i" "\<not> sameline c"
    and v: "item_to_string j = Some v" "int (length label) + int (length v) + 2 \<le> uint (rw c)" "uint (rw c) < 40"
    and "(uint (ry c) + uint (ctx_y c + 1)) * 128 + uint (rx c) + uint (rw c) \<le> 8192"
  shows "returns (gfx_menuitem_select_func label n item_to_string index s')
    (\<lambda>(ch, k, s1). k = j \<and> ch = (j \<noteq> index) \<and>
       drawn s (text_ctx ALIGN_LEFT (select_line (uint (rw c)) label v) c1 # r)
         (ms(i := (ms i)\<lparr>menu_count := menu_count (ms i) + 1\<rparr>)) s1)"
proof -
  obtain cur: "cur s' = c" "menus s' = ms" "gamepad_pressed s' = gamepad_pressed s"
    using assms(4) by (rule drawnE)
  define line where "line = select_line (uint (rw c)) label v"
  obtain k where k: "uint (rw c) = int k"
    using nonneg_int_cases [OF uint_pos] .
  have len: "length line < 40" "int (length line) = uint (rw c)"
    using v(2,3) unfolding k line_def length_select_line by auto
  define s2 where "s2 = gfx_pen (if sel then TEXT_GRAY OR TEXT_INVERT else TEXT_GRAY) (gfx_newline 1 s')"
  have "drawn s (c1 # r) ms s2"
    using drawn_pen [OF drawn_newline [OF assms(4), of 1],
        of "if sel then TEXT_GRAY OR TEXT_INVERT else TEXT_GRAY"]
    by (simp add: s2_def c1_def)
  then have "returns (gfx_text line s2) (drawn s (text_ctx ALIGN_LEFT line c1 # r) ms)"
    unfolding gfx_text_def using assms(6,10) len
    by (intro drawn_text) (simp_all add: c1_def text_x_def has_flag_def align_defs)
  then have "returns (gfx_text line s2 \<bind> (\<lambda>s1. Some (j \<noteq> index, j,
        upd_menu i (\<lambda>m. m\<lparr>menu_count := menu_count m + 1\<rparr>) s1)))
      (\<lambda>(ch, k, s1). k = j \<and> ch = (j \<noteq> index) \<and>
       drawn s (text_ctx ALIGN_LEFT line c1 # r) (ms(i := (ms i)\<lparr>menu_count := menu_count (ms i) + 1\<rparr>)) s1)"
    by (rule returns_bind) (simp add: drawn_count)
  moreover have "input_pressed s' = gamepad_pressed s"
    by (simp add: input_pressed_def cur)
  then have "gfx_menuitem_select_func label n item_to_string index s' =
      gfx_text line s2 \<bind> (\<lambda>s1. Some (j \<noteq> index, j,
        upd_menu i (\<lambda>m. m\<lparr>menu_count := menu_count m + 1\<rparr>) s1))"
    using assms(5) v(1) len(1) cur(1,2)
    by (cases sel) (simp_all add: gfx_menuitem_select_func_def j_def line_def s2_def sel_def Let_def)
  ultimately show ?thesis
    by (simp only: line_def)
qed

lemma drawn_button:
  fixes c :: Context and label i ms
  defines "sel \<equiv> menu_count (ms i) = menu_index (ms i)"
  defines "c1 \<equiv> c\<lparr>ctx_y := ctx_y c + 1, pen := (if sel then TEXT_GRAY OR TEXT_INVERT else TEXT_GRAY)\<rparr>"
  assumes "drawn s (c # r) ms s'" "menuctx c = Some i" "\<not> sameline c"
    and "(uint (ry c) + uint (ctx_y c + 1)) * 128 + uint (text_x ALIGN_CENTER label c) + uint (rx c) +
      int (length label) \<le> 8192"
  shows "returns (gfx_menuitem_button label s')
    (\<lambda>(ch, s1). ch = (sel \<and> has_flag (gamepad_pressed s) INPUT_OK) \<and>
       drawn s (text_ctx ALIGN_CENTER label c1 # r)
         (ms(i := (ms i)\<lparr>menu_count := menu_count (ms i) + 1\<rparr>)) s1)"
proof -
  obtain cur: "cur s' = c" "menus s' = ms" "gamepad_pressed s' = gamepad_pressed s"
    using assms(3) by (rule drawnE)
  define s2 where "s2 = gfx_pen (if sel then TEXT_GRAY OR TEXT_INVERT else TEXT_GRAY) (gfx_newline 1 s')"
  have "drawn s (c1 # r) ms s2"
    using drawn_pen [OF drawn_newline [OF assms(3), of 1],
        of "if sel then TEXT_GRAY OR TEXT_INVERT else TEXT_GRAY"]
    by (simp add: s2_def c1_def)
  moreover have tx: "text_x ALIGN_CENTER label c1 = text_x ALIGN_CENTER label c"
    by (simp add: text_x_def c1_def)
  ultimately have "returns (gfx_text_aligned ALIGN_CENTER label s2) (drawn s (text_ctx ALIGN_CENTER label c1 # r) ms)"
    using assms(5,6) tx by (intro drawn_text) (simp_all add: c1_def)
  then have "returns (gfx_text_aligned ALIGN_CENTER label s2 \<bind> (\<lambda>s1.
        Some (sel \<and> has_flag (gamepad_pressed s) INPUT_OK,
        upd_menu i (\<lambda>m. m\<lparr>menu_count := menu_count m + 1\<rparr>) s1)))
      (\<lambda>(ch, s1). ch = (sel \<and> has_flag (gamepad_pressed s) INPUT_OK) \<and>
       drawn s (text_ctx ALIGN_CENTER label c1 # r) (ms(i := (ms i)\<lparr>menu_count := menu_count (ms i) + 1\<rparr>)) s1)"
    by (rule returns_bind) (simp add: drawn_count)
  then show ?thesis
    using assms(4) cur
    by (simp add: gfx_menuitem_button_def Let_def input_pressed_def sel_def [symmetric] s2_def [symmetric])
qed

end
