(* ===== verification/Hdmi.thy ===== *)
theory Hdmi
  imports Laggy_Prelude Soft_Float
begin

text \<open>
  Video modes and pixel clocks (hdmi.c, hdmi.h). Values of type float and double are rationals that
  every operation rounds (Soft_Float). The two register files are modelled by the writes they
  receive: the HPS bridge by the sequence of bus writes, the local clock generator by its sequence of
  register writes and the values its busy register shows. None stands for a loop that does not end or
  a conversion to an integer type out of its range.
\<close>

subsection \<open>Video modes\<close>

record VideoMode =
  hact :: u16
  hfp :: u16
  hs :: u16
  hbp :: u16
  vact :: u16
  vfp :: u16
  vs :: u16
  vbp :: u16
  mhz :: rat

text \<open>Arithmetic on int is undefined when it overflows.\<close>

definition i32 :: "int \<Rightarrow> int option" where
  "i32 n = (if - 2147483648 \<le> n \<and> n < 2147483648 then Some n else None)"

definition video_mode_pixels :: "VideoMode \<Rightarrow> u32 option" where
  "video_mode_pixels m =
     map_option of_int (i32 ((uint (hact m) + uint (hbp m) + uint (hfp m) + uint (hs m)) *
       (uint (vact m) + uint (vbp m) + uint (vfp m) + uint (vs m))))"

definition CELL_GRAN_RND :: int where "CELL_GRAN_RND = 4"

fun vsync_search :: "int \<Rightarrow> int \<Rightarrow> (int \<times> int \<times> int) list \<Rightarrow> int" where
  "vsync_search w h [] = 10"
| "vsync_search w h ((arx, ary, vsync) # ars) =
     (if ((h * arx) div (ary * CELL_GRAN_RND)) * CELL_GRAN_RND = w then vsync
      else vsync_search w h ars)"

definition determine_vsync :: "int \<Rightarrow> int \<Rightarrow> int" where
  "determine_vsync w h =
     vsync_search w h [(4, 3, 4), (16, 9, 5), (16, 10, 6), (5, 4, 7), (15, 9, 7)]"

text \<open>Conversions of a floating point value to int and to uint32_t drop the fraction; out of range
  they are undefined.\<close>

definition to_int :: "rat \<Rightarrow> int option" where
  "to_int x =
     (let n = (if 0 \<le> x then \<lfloor>x\<rfloor> else \<lceil>x\<rceil>)
      in if - 2147483648 \<le> n \<and> n < 2147483648 then Some n else None)"

definition to_u32 :: "rat \<Rightarrow> u32 option" where
  "to_u32 x = (if 0 \<le> x \<and> x < 4294967296 then Some (of_int \<lfloor>x\<rfloor>) else None)"

text \<open>The infinities are not modelled: a division by zero is None.\<close>

definition fdiv :: "rat \<Rightarrow> rat \<Rightarrow> rat option" where
  "fdiv x y = (if y = 0 then None else Some (to_float (x / y)))"

definition cvt_mode :: "int \<Rightarrow> int \<Rightarrow> int \<Rightarrow> int \<Rightarrow> int \<Rightarrow> int \<Rightarrow> int \<Rightarrow> rat \<Rightarrow> VideoMode" where
  "cvt_mode h_pixels_rnd h_front_porch h_sync h_back_porch v_lines v_sync v_back_porch pixel_freq =
     \<lparr>hact = of_int h_pixels_rnd, hfp = of_int h_front_porch, hs = of_int h_sync,
      hbp = of_int h_back_porch, vact = of_int v_lines, vfp = of_int (3 - 1), vs = of_int v_sync,
      vbp = of_int (v_back_porch + 1), mhz = pixel_freq\<rparr>"

definition cvt_reduced :: "int \<Rightarrow> int \<Rightarrow> rat \<Rightarrow> int \<Rightarrow> VideoMode option" where
  "cvt_reduced h_pixels_rnd v_lines refresh_rate v_sync =
     do {
       frame \<leftarrow> fdiv 1000000 refresh_rate;
       h_period_est \<leftarrow> fdiv (to_float (frame - 460)) (to_float (of_int v_lines));
       q \<leftarrow> fdiv 460 h_period_est;
       n \<leftarrow> to_int q;
       let h_blank = 160;
       vbi_lines \<leftarrow> i32 (n + 1);
       let rb_min_vbi = 3 + v_sync + 6;
       let act_vbi_lines = (if vbi_lines < rb_min_vbi then rb_min_vbi else vbi_lines);
       let total_v_lines = act_vbi_lines + v_lines;
       let total_pixels = h_blank + h_pixels_rnd;
       pixels \<leftarrow> i32 (total_v_lines * total_pixels);
       let pixel_freq = to_float (to_float (refresh_rate * to_float (of_int pixels)) / 1000000);
       let v_back_porch = act_vbi_lines - 3 - v_sync;
       Some (cvt_mode h_pixels_rnd (h_blank - 32 - 80) 32 80 v_lines v_sync v_back_porch pixel_freq)
     }"

text \<open>The horizontal blanking and the horizontal sync of a standard mode.\<close>

definition standard_blank :: "int \<Rightarrow> rat \<Rightarrow> int option" where
  "standard_blank h_pixels_rnd ideal_duty_cycle =
     (if ideal_duty_cycle < 20
      then Some ((h_pixels_rnd div 4 div (2 * CELL_GRAN_RND)) * (2 * CELL_GRAN_RND))
      else do {
        d \<leftarrow> fdiv (to_float (to_float (of_int h_pixels_rnd) * ideal_duty_cycle))
               (to_float (100 - ideal_duty_cycle));
        k \<leftarrow> to_int (to_float (d / of_int (2 * CELL_GRAN_RND)));
        i32 (k * (2 * CELL_GRAN_RND))
      })"

definition standard_sync :: "int \<Rightarrow> int option" where
  "standard_sync total_pixels =
     do {
       k \<leftarrow> to_int (to_float (to_float (to_float (8 / 100) * to_float (of_int total_pixels)) /
              of_int CELL_GRAN_RND));
       i32 (k * CELL_GRAN_RND)
     }"

definition cvt_standard :: "int \<Rightarrow> int \<Rightarrow> rat \<Rightarrow> int \<Rightarrow> VideoMode option" where
  "cvt_standard h_pixels_rnd v_lines refresh_rate v_sync =
     do {
       frame \<leftarrow> fdiv 1 refresh_rate;
       line \<leftarrow> fdiv (to_float (frame - to_float (550 / 1000000))) (to_float (of_int (v_lines + 3)));
       let h_period_est = to_float (line * 1000000);
       q \<leftarrow> fdiv 550 h_period_est;
       n \<leftarrow> to_int q;
       n \<leftarrow> i32 (n + 1);
       let v_sync_bp = (if n < v_sync + 6 then v_sync + 6 else n);
       let v_back_porch = v_sync_bp - v_sync;
       let ideal_duty_cycle = to_float (30 - to_float (to_float (300 * h_period_est) / 1000));
       h_blank \<leftarrow> standard_blank h_pixels_rnd ideal_duty_cycle;
       total_pixels \<leftarrow> i32 (h_pixels_rnd + h_blank);
       h_sync \<leftarrow> standard_sync total_pixels;
       let h_back_porch = h_blank div 2;
       let h_front_porch = h_blank - h_sync - h_back_porch;
       pixel_freq \<leftarrow> fdiv (to_float (of_int total_pixels)) h_period_est;
       Some (cvt_mode h_pixels_rnd h_front_porch h_sync h_back_porch v_lines v_sync v_back_porch
         pixel_freq)
     }"

definition calculate_cvt :: "int \<Rightarrow> int \<Rightarrow> rat \<Rightarrow> bool \<Rightarrow> VideoMode option" where
  "calculate_cvt h_pixels v_lines refresh_rate reduced_blanking =
     (let h_pixels_rnd = (h_pixels div CELL_GRAN_RND) * CELL_GRAN_RND;
          v_sync = determine_vsync h_pixels_rnd v_lines
      in if reduced_blanking then cvt_reduced h_pixels_rnd v_lines refresh_rate v_sync
         else cvt_standard h_pixels_rnd v_lines refresh_rate v_sync)"

definition hdmi_find_mode :: "u16 \<Rightarrow> u16 \<Rightarrow> rat \<Rightarrow> VideoMode option" where
  "hdmi_find_mode width height hz =
     do {
       pixels \<leftarrow> i32 (uint width * uint height);
       let rb = pixels > 1920 * 1080;
       calculate_cvt (uint width) (uint height) hz rb
     }"

subsection \<open>Clock generator parameters\<close>

definition getPLLdiv :: "u32 \<Rightarrow> u32" where
  "getPLLdiv d =
     (if d AND 1 \<noteq> 0 then 0x20000 OR push_bit 8 (d div 2 + 1) OR d div 2
      else push_bit 8 (d div 2) OR d div 2)"

text \<open>The first loop of findPLLpar and of its callers: the product of the clock and the counter, in
  the caller's precision, is the first argument.\<close>

partial_function (option) c_loop :: "(u32 \<Rightarrow> rat) \<Rightarrow> u32 \<Rightarrow> u32 option" where
  "c_loop mul c = (if mul c < 400 then c_loop mul (c + 1) else Some c)"

definition double_product :: "rat \<Rightarrow> u32 \<Rightarrow> rat" where
  "double_product Fout c = to_double (Fout * of_nat (unat c))"

definition float_product :: "rat \<Rightarrow> u32 \<Rightarrow> rat" where
  "float_product Fout c = to_float (Fout * to_float (of_nat (unat c)))"

definition in_range :: "rat \<Rightarrow> bool" where
  "in_range ko \<longleftrightarrow> \<not> (ko \<noteq> 0 \<and> (ko \<le> to_float (5 / 100) \<or> ko \<ge> to_float (95 / 100)))"

text \<open>The second loop: Some None is the return value 0.\<close>

partial_function (option) par_loop :: "rat \<Rightarrow> u32 \<Rightarrow> (u32 \<times> u32 \<times> rat) option option" where
  "par_loop Fout c =
     (let q = to_double (double_product Fout c / 50)
      in case to_u32 q of
           None \<Rightarrow> None
         | Some m \<Rightarrow>
             let ko = to_double (q - of_nat (unat m));
                 fvco = to_double (to_double (ko + of_nat (unat m)) * 50)
             in if \<not> in_range ko
                then if fvco > 1500 then Some None else par_loop Fout (c + 1)
                else Some (Some (c, m, ko)))"

definition findPLLpar :: "rat \<Rightarrow> (u32 \<times> u32 \<times> rat) option option" where
  "findPLLpar Fout = c_loop (double_product Fout) 1 \<bind> par_loop Fout"

text \<open>The parameters setPLL and crt_set_mode write: when findPLLpar finds none, the smallest counter
  with the fraction forced to the nearest whole multiplier if it is out of range.\<close>

definition pll_fallback :: "(u32 \<Rightarrow> rat) \<Rightarrow> (u32 \<times> u32 \<times> rat) option" where
  "pll_fallback mul =
     do {
       c \<leftarrow> c_loop mul 1;
       let q = to_double (mul c / 50);
       m \<leftarrow> to_u32 q;
       let ko = to_double (q - of_nat (unat m));
       Some (if ko \<le> to_float (5 / 100) then (c, m, 0)
             else if ko \<ge> to_float (95 / 100) then (c, m + 1, 0)
             else (c, m, ko))
     }"

definition fraction_word :: "rat \<Rightarrow> u32 option" where
  "fraction_word ko = (if ko \<noteq> 0 then to_u32 (to_double (ko * 4294967296)) else Some 1)"

definition pll_params :: "(u32 \<Rightarrow> rat) \<Rightarrow> rat \<Rightarrow> (u32 \<times> u32 \<times> u32) option" where
  "pll_params mul Fout =
     do {
       r \<leftarrow> findPLLpar Fout;
       (c, m, ko) \<leftarrow> (case r of Some p \<Rightarrow> Some p | None \<Rightarrow> pll_fallback mul);
       k \<leftarrow> fraction_word ko;
       Some (c, m, k)
     }"

subsection \<open>The bridge to the HPS\<close>

text \<open>The writes to the enable and to the data register. What vio_w16 and the commands read back is not
  used by any caller.\<close>

datatype bus = Vio_en u16 | Vio_data u16

definition VIO_SET_MODE :: u16 where "VIO_SET_MODE = 1"
definition VIO_SET_PLL :: u16 where "VIO_SET_PLL = 2"
definition VIO_SET_OVERRIDE :: u16 where "VIO_SET_OVERRIDE = 3"
definition VIO_SET_CFG :: u16 where "VIO_SET_CFG = 4"

lemmas vio_const_defs = VIO_SET_MODE_def VIO_SET_PLL_def VIO_SET_OVERRIDE_def VIO_SET_CFG_def

definition vio_enable :: "bus list" where "vio_enable = [Vio_en 0xffff]"
definition vio_disable :: "bus list" where "vio_disable = [Vio_en 0x0000]"
definition vio_w16 :: "u16 \<Rightarrow> bus list" where "vio_w16 d = [Vio_data d]"

definition vio_cmd :: "u16 \<Rightarrow> u16 \<Rightarrow> bus list" where
  "vio_cmd cmd data = vio_enable @ [Vio_data cmd, Vio_data data] @ vio_disable"

definition vio_cmd_cont :: "u16 \<Rightarrow> bus list" where
  "vio_cmd_cont cmd = vio_enable @ [Vio_data cmd]"

definition vio_write_pll :: "u16 \<Rightarrow> u32 \<Rightarrow> bus list" where
  "vio_write_pll addr value =
     vio_cmd_cont VIO_SET_PLL @ vio_w16 addr @ vio_w16 (ucast (value AND 0xffff)) @
     vio_w16 (ucast (drop_bit 16 value)) @ vio_disable"

definition setPLL :: "rat \<Rightarrow> bus list option" where
  "setPLL Fout =
     map_option (\<lambda>(c, m, k).
       vio_write_pll 0 0 @ vio_write_pll 4 (getPLLdiv m) @ vio_write_pll 3 0x10000 @
       vio_write_pll 5 (getPLLdiv c) @ vio_write_pll 9 2 @ vio_write_pll 8 7 @ vio_write_pll 7 k)
     (pll_params (double_product Fout) Fout)"

definition hdmi_set_mode :: "u16 \<Rightarrow> u16 \<Rightarrow> rat \<Rightarrow> bus list option" where
  "hdmi_set_mode width height hz =
     do {
       mode \<leftarrow> hdmi_find_mode width height hz;
       pixels \<leftarrow> video_mode_pixels mode;
       let Fout = to_double (to_float (to_float (of_nat (unat pixels)) * hz) / 1000000);
       pll \<leftarrow> setPLL Fout;
       Some (vio_cmd VIO_SET_OVERRIDE 1 @ vio_cmd VIO_SET_CFG 0 @ vio_cmd_cont VIO_SET_MODE @
         vio_w16 (hact mode) @ vio_w16 (hfp mode) @ vio_w16 (hs mode) @ vio_w16 (hbp mode) @
         vio_w16 (vact mode) @ vio_w16 (vfp mode) @ vio_w16 (vs mode) @ vio_w16 (vbp mode) @
         vio_w16 1 @ vio_disable @ pll @ vio_cmd VIO_SET_CFG 1)
     }"

subsection \<open>The local clock generator\<close>

text \<open>The registers of the CRTC, its eight timing registers in the order of the structure, the writes to
  its clock generator, and the values the busy register will show to the polls to come.\<close>

record CRTC =
  ce_numer :: u16
  ce_denom :: u16
  timing :: "u16 list"
  arx :: u16
  ary :: u16
  pll_writes :: "(u16 \<times> u32) list"
  pll_io :: "u16 list"

text \<open>The wait for the busy register: it ends at the first zero.\<close>

fun wait_pll :: "u16 list \<Rightarrow> u16 list option" where
  "wait_pll [] = None"
| "wait_pll (v # polls) = (if v \<noteq> 0 then wait_pll polls else Some polls)"

definition crtc_write_pll :: "u16 \<Rightarrow> u32 \<Rightarrow> CRTC \<Rightarrow> CRTC option" where
  "crtc_write_pll address data r =
     map_option (\<lambda>polls. r\<lparr>pll_io := polls, pll_writes := pll_writes r @ [(address, data)]\<rparr>)
       (wait_pll (pll_io r))"

definition crt_set_mode :: "VideoMode \<Rightarrow> bool \<Rightarrow> CRTC \<Rightarrow> CRTC option" where
  "crt_set_mode mode wide r =
     do {
       let f = to_float (mhz mode * 4);
       (c, m, k) \<leftarrow> pll_params (float_product f) f;
       r \<leftarrow> crtc_write_pll 0 0 r;
       r \<leftarrow> crtc_write_pll 4 (getPLLdiv m) r;
       r \<leftarrow> crtc_write_pll 3 0x10000 r;
       r \<leftarrow> crtc_write_pll 5 (getPLLdiv c) r;
       r \<leftarrow> crtc_write_pll 9 2 r;
       r \<leftarrow> crtc_write_pll 8 7 r;
       r \<leftarrow> crtc_write_pll 7 k r;
       r \<leftarrow> crtc_write_pll 2 0 r;
       Some (r\<lparr>ce_numer := 1, ce_denom := 4,
         timing := [hact mode, hfp mode, hs mode, hbp mode, vact mode, vfp mode, vs mode, vbp mode],
         arx := (if wide then 16 else 4), ary := (if wide then 9 else 3)\<rparr>)
     }"

end
