(* ===== verification/Hdmi_Modes.thy ===== *)
theory Hdmi_Modes
  imports Hdmi
begin

text \<open>
  The modes that calculate_cvt computes (hdmi.c): bounds for the line period, the blanking and the sync
  width through every rounding step, for standard and for reduced blanking, and the validity of the
  resulting mode.
\<close>

subsection \<open>Horizontal timing\<close>

lemma standard_blank_bounds:
  assumes h: "0 \<le> h" "h \<le> 4096" "h mod 4 = 0" and ideal: "ideal \<le> 30"
  obtains b where "standard_blank h ideal = Some b" "8 * (h div 32) \<le> b" "2 * b \<le> h + 16" "b mod 8 = 0"
proof (cases "ideal < 20")
  case True
  have "h div 4 div 8 = h div 32"
    by (simp add: zdiv_zmult2_eq [symmetric])
  then show ?thesis
    using that True h by (auto simp: standard_blank_def CELL_GRAN_RND_def)
next
  case False
  define n where "n = h div 4"
  have hn: "h = 4 * n"
    using h(3) by (auto simp: n_def)
  have fh: "to_float (of_int h) = of_int h"
    using h by (intro single.small_int) auto
  define N where "N = to_float (of_int h * ideal)"
  define D where "D = to_float (100 - ideal)"
  have "of_int h * 20 \<le> of_int h * ideal" "of_int h * ideal \<le> of_int h * 30"
    using h ideal False by (auto intro!: mult_left_mono)
  then have N: "of_int (20 * h) \<le> N" "N \<le> of_int (30 * h)"
    unfolding N_def using h single.rnd_ge_int [of "20 * h"] single.rnd_le_int [of "30 * h"]
    by (simp_all add: mult.commute)
  have D: "70 \<le> D" "D \<le> 80"
    unfolding D_def using ideal False single.rnd_ge_int [of 70] single.rnd_le_int [of 80] by auto
  have "(0 :: rat) \<le> of_int (20 * h)" "(0 :: rat) \<le> of_int (30 * h)"
    using h by simp_all
  then have "of_int (20 * h) / 80 \<le> N / D" "N / D \<le> of_int (30 * h) / 70"
    using N D by (intro frac_le; linarith)+
  then have "of_int n \<le> N / D" "N / D \<le> of_int (2 * n)"
    using h unfolding hn by (auto simp: field_simps)
  then have d: "of_int n \<le> to_float (N / D)" "to_float (N / D) \<le> of_int (2 * n)"
    using h hn single.rnd_ge_int [of n] single.rnd_le_int [of "2 * n"] by auto
  define q where "q = to_float (to_float (N / D) / 8)"
  have "of_int (n div 8) \<le> to_float (N / D) / 8"
  proof -
    have "8 * (n div 8) \<le> n"
      by simp
    then have "of_int (8 * (n div 8)) \<le> to_float (N / D)"
      using d(1) by (meson of_int_le_iff order_trans)
    then show ?thesis
      by simp
  qed
  moreover have "to_float (N / D) / 8 \<le> of_int (n div 4 + 1)"
  proof -
    have "2 * n \<le> 8 * (n div 4 + 1)"
      by simp
    then have "to_float (N / D) \<le> of_int (8 * (n div 4 + 1))"
      using d(2) by (meson of_int_le_iff order_trans)
    then show ?thesis
      by simp
  qed
  moreover have "\<bar>n div 8\<bar> \<le> 16777216" "\<bar>n div 4 + 1\<bar> \<le> 16777216"
    using h hn by auto
  ultimately have q: "of_int (n div 8) \<le> q" "q \<le> of_int (n div 4 + 1)"
    unfolding q_def by (metis single.rnd_ge_int, metis single.rnd_le_int)
  moreover have "0 \<le> n div 8"
    using h hn by auto
  then have "0 \<le> q"
    using q(1) by (meson of_int_0_le_iff order_trans)
  moreover have "n div 8 \<le> \<lfloor>q\<rfloor>" "\<lfloor>q\<rfloor> \<le> n div 4 + 1"
    using q floor_mono [OF q(2)] by (simp_all add: le_floor_iff)
  ultimately have "to_int q = Some \<lfloor>q\<rfloor>" "i32 (\<lfloor>q\<rfloor> * 8) = Some (\<lfloor>q\<rfloor> * 8)"
    using h hn by (auto simp: to_int_def i32_def Let_def)
  then have "standard_blank h ideal = Some (\<lfloor>q\<rfloor> * 8)"
    using False D by (simp add: standard_blank_def fh N_def [symmetric] D_def [symmetric] fdiv_def
        CELL_GRAN_RND_def q_def)
  moreover have "8 * (h div 32) \<le> \<lfloor>q\<rfloor> * 8" "2 * (\<lfloor>q\<rfloor> * 8) \<le> h + 16"
    using \<open>n div 8 \<le> \<lfloor>q\<rfloor>\<close> \<open>\<lfloor>q\<rfloor> \<le> n div 4 + 1\<close> hn by auto
  ultimately show ?thesis
    using that by auto
qed

lemma to_int_nonneg: "0 \<le> x \<Longrightarrow> x < 2147483648 \<Longrightarrow> to_int x = Some \<lfloor>x\<rfloor>"
  by (auto simp: to_int_def Let_def floor_less_iff)

lemma i32_id: "- 2147483648 \<le> n \<Longrightarrow> n < 2147483648 \<Longrightarrow> i32 n = Some n"
  by (simp add: i32_def)

lemma standard_sync_bounds:
  assumes "101 \<le> t" "t \<le> 8192"
  obtains k where "standard_sync t = Some (4 * k)" "1 \<le> k" "10000 * k \<le> 201 * t"
proof -
  define T :: rat where "T = of_int t"
  have T: "101 \<le> T" "T \<le> 8192"
    using assms by (auto simp: T_def)
  have fT: "to_float T = T"
    unfolding T_def using assms by (intro single.small_int) auto
  define e where "e = to_float (8 / 100)"
  have e: "799 / 10000 \<le> e" "e \<le> 801 / 10000"
    using single.rnd_near [of "8 / 100"] by (simp_all add: e_def)
  define P where "P = to_float (e * T)"
  have eT: "799 / 10000 * T \<le> e * T" "e * T \<le> 801 / 10000 * T"
    using e T by (auto intro!: mult_right_mono)
  then have "0 \<le> e * T"
    using T by linarith
  then have P: "798 / 10000 * T \<le> P" "P \<le> 802 / 10000 * T"
    using single.rnd_near [of "e * T"] eT T unfolding P_def by linarith+
  define Q where "Q = to_float (P / 4)"
  have "0 \<le> P / 4"
    using P T by simp
  then have Q: "199 / 10000 * T \<le> Q" "Q \<le> 201 / 10000 * T"
    using single.rnd_near [of "P / 4"] P T unfolding Q_def by linarith+
  have "of_int \<lfloor>Q\<rfloor> \<le> 201 / 10000 * T"
    using Q(2) of_int_floor_le [of Q] by linarith
  then have "of_int (10000 * \<lfloor>Q\<rfloor>) \<le> (of_int (201 * t) :: rat)"
    by (simp add: T_def)
  then have ub: "10000 * \<lfloor>Q\<rfloor> \<le> 201 * t"
    by (simp only: of_int_le_iff)
  have lb: "1 \<le> \<lfloor>Q\<rfloor>"
    using Q T by (simp only: one_le_floor)
  have "to_int Q = Some \<lfloor>Q\<rfloor>"
    using Q T by (intro to_int_nonneg) auto
  moreover have "i32 (\<lfloor>Q\<rfloor> * 4) = Some (\<lfloor>Q\<rfloor> * 4)"
    using ub lb assms by (intro i32_id; linarith)
  ultimately have "standard_sync t = Some (4 * \<lfloor>Q\<rfloor>)"
    by (simp only: standard_sync_def CELL_GRAN_RND_def T_def [symmetric] fT e_def [symmetric]
          P_def [symmetric] of_int_numeral Q_def [symmetric] bind.bind_lunit mult.commute [of _ 4])
  then show ?thesis
    using that lb ub by blast
qed

text \<open>The time of a line, in microseconds, for every refresh rate up to 1000 Hz.\<close>

lemma standard_period:
  assumes rr: "1 \<le> rr" "rr \<le> 1000" and v: "1 \<le> v" "v \<le> 4096"
  obtains frame line where "fdiv 1 rr = Some frame"
    "fdiv (to_float (frame - to_float (550 / 1000000))) (to_float (of_int (v + 3))) = Some line"
    "1 / 10 \<le> to_float (line * 1000000)"
proof -
  define frame where "frame = to_float (1 / rr)"
  have "1 / 1000 \<le> 1 / rr"
    using rr by (intro divide_left_mono) auto
  then have frame: "999 / 1000000 \<le> frame"
    unfolding frame_def by (rule single.rnd_ge_near [rotated]) simp_all
  define c where "c = to_float (550 / 1000000)"
  have c: "c \<le> 551 / 1000000"
    unfolding c_def by (rule single.rnd_le_near [OF _ order_refl]) simp_all
  define D where "D = to_float (frame - c)"
  have "440 / 1000000 \<le> frame - c"
    using frame c by simp
  then have D: "439 / 1000000 \<le> D"
    unfolding D_def by (rule single.rnd_ge_near [rotated]) simp_all
  define V :: rat where "V = of_int (v + 3)"
  have fV: "to_float V = V"
    unfolding V_def using v by (intro single.small_int) auto
  have V: "0 < V" "V \<le> 4099"
    using v by (simp_all add: V_def)
  define line where "line = to_float (D / V)"
  have "439 / 1000000 / 4099 \<le> D / V"
    using D V by (intro frac_le) auto
  then have line: "105 / 1000000000 \<le> line"
    unfolding line_def by (rule single.rnd_ge_near [rotated]) simp_all
  then have "105 / 1000 \<le> line * 1000000"
    by simp
  then have "1 / 10 \<le> to_float (line * 1000000)"
    by (rule single.rnd_ge_near [rotated]) simp_all
  moreover have "fdiv 1 rr = Some frame" "fdiv (to_float (frame - c)) (to_float V) = Some line"
    using rr V fV by (auto simp: fdiv_def frame_def D_def line_def)
  ultimately show ?thesis
    using that by (simp add: c_def V_def)
qed

lemma lines_bound:
  assumes "1 / 10 \<le> p" and "0 \<le> a" "a \<le> 550"
  obtains n where "fdiv a p = Some (to_float (a / p))" "to_int (to_float (a / p)) = Some n"
    "0 \<le> n" "n \<le> 5501" "i32 (n + 1) = Some (n + 1)"
proof -
  have "a / p \<le> 550 / (1 / 10)"
    using assms by (intro frac_le) auto
  moreover have "0 \<le> a / p"
    using assms by simp
  ultimately have q: "0 \<le> to_float (a / p)" "to_float (a / p) \<le> 5501"
    using single.rnd_ge_near [of 0 "a / p" 0] single.rnd_le_near [of "a / p" 5500 5501] by simp_all
  then have "\<lfloor>to_float (a / p)\<rfloor> \<le> 5501" "0 \<le> \<lfloor>to_float (a / p)\<rfloor>"
    using floor_mono [OF q(2)] by simp_all
  moreover have "to_int (to_float (a / p)) = Some \<lfloor>to_float (a / p)\<rfloor>"
    using q by (intro to_int_nonneg) auto
  ultimately show ?thesis
    using that assms by (auto simp: fdiv_def i32_def)
qed

lemma ideal_duty_cycle_le: "0 \<le> p \<Longrightarrow> to_float (30 - to_float (to_float (300 * p) / 1000)) \<le> 30"
proof -
  assume "0 \<le> p"
  then have "0 \<le> to_float (300 * p)"
    by (intro single.rnd_nonneg) simp
  then have "0 \<le> to_float (to_float (300 * p) / 1000)"
    by (intro single.rnd_nonneg) simp
  then show ?thesis
    using single.rnd_le_int [of 30 "30 - to_float (to_float (300 * p) / 1000)"] by simp
qed

lemma vsync_search_bounds:
  "list_all (\<lambda>(x, y, n). 4 \<le> n \<and> n \<le> 10) ars \<Longrightarrow> 4 \<le> vsync_search w h ars \<and> vsync_search w h ars \<le> 10"
  by (induction w h ars rule: vsync_search.induct) auto

lemma determine_vsync_bounds: "4 \<le> determine_vsync w h" "determine_vsync w h \<le> 10"
  using vsync_search_bounds [of "[(4, 3, 4), (16, 9, 5), (16, 10, 6), (5, 4, 7), (15, 9, 7)]" w h]
  by (simp_all add: determine_vsync_def)

text \<open>A mode as integers, with no 16-bit register cut off.\<close>

definition mode_timing :: "VideoMode \<Rightarrow> int list" where
  "mode_timing m = map uint [hact m, hfp m, hs m, hbp m, vact m, vfp m, vs m, vbp m]"

lemma mode_timing_cvt_mode:
  assumes "list_all (\<lambda>n. 0 \<le> n \<and> n < 65536) [h, hf, hy, hb, v, vy, vb + 1]"
  shows "mode_timing (cvt_mode h hf hy hb v vy vb f) = [h, hf, hy, hb, v, 2, vy, vb + 1]"
  using assms by (simp add: mode_timing_def cvt_mode_def unsigned_of_int take_bit_int_eq_self
      del: of_int_add)

lemma cvt_standard_timing:
  assumes h: "160 \<le> h" "h \<le> 4096" "h mod 4 = 0" and v: "1 \<le> v" "v \<le> 4096"
    and rr: "1 \<le> rr" "rr \<le> 1000" and y: "4 \<le> y" "y \<le> 10"
  obtains m b hy vb where "cvt_standard h v rr y = Some m"
    "mode_timing m = [h, b - hy - b div 2, hy, b div 2, v, 2, y, vb]"
    "8 * (h div 32) \<le> b" "2 * b \<le> h + 16" "b mod 8 = 0" "0 < hy" "hy mod 4 = 0" "2 * hy < b" "7 \<le> vb" "vb < 5500"
proof -
  obtain frame line where period: "fdiv 1 rr = Some frame"
    "fdiv (to_float (frame - to_float (550 / 1000000))) (to_float (of_int (v + 3))) = Some line"
    and p: "1 / 10 \<le> to_float (line * 1000000)"
    using standard_period [OF rr v] by blast
  define p where "p = to_float (line * 1000000)"
  obtain n where n: "fdiv 550 p = Some (to_float (550 / p))" "to_int (to_float (550 / p)) = Some n"
    "0 \<le> n" "n \<le> 5501" "i32 (n + 1) = Some (n + 1)"
    using lines_bound [of p 550] p by (auto simp: p_def)
  define ideal where "ideal = to_float (30 - to_float (to_float (300 * p) / 1000))"
  have "ideal \<le> 30"
    using p by (auto simp: ideal_def p_def intro: ideal_duty_cycle_le)
  then obtain b where b: "standard_blank h ideal = Some b" "8 * (h div 32) \<le> b" "2 * b \<le> h + 16"
    "b mod 8 = 0"
    using standard_blank_bounds [of h ideal] h by auto
  have hb: "i32 (h + b) = Some (h + b)"
    using h b by (intro i32_id; linarith)
  have "101 \<le> h + b" "h + b \<le> 8192"
    using h b by linarith+
  then obtain k where k: "standard_sync (h + b) = Some (4 * k)" "1 \<le> k" "10000 * k \<le> 201 * (h + b)"
    using standard_sync_bounds by blast
  define vb where "vb = (if n + 1 < y + 6 then y + 6 else n + 1) - y"
  obtain f where f: "fdiv (to_float (of_int (h + b))) p = Some f"
    using p by (auto simp: fdiv_def p_def)
  have cvt: "cvt_standard h v rr y = Some (cvt_mode h (b - 4 * k - b div 2) (4 * k) (b div 2) v y vb f)"
    by (simp only: cvt_standard_def Let_def period p_def [symmetric] n ideal_def [symmetric] b hb k
          vb_def [symmetric] f bind.bind_lunit)
  have hy: "2 * (4 * k) < b"
  proof -
    have "h - 31 \<le> 32 * (h div 32)"
      using pos_mod_bound [of 32 h] div_mult_mod_eq [of h 32] by linarith
    with b(2) have "h - 31 \<le> 4 * b"
      by linarith
    moreover have "10000 * (8 * k) \<le> 1608 * h + 1608 * b"
      using k(3) by simp
    ultimately have "10000 * (8 * k) < 10000 * b"
      using h(1) by simp
    then show ?thesis
      by simp
  qed
  have "mode_timing (cvt_mode h (b - 4 * k - b div 2) (4 * k) (b div 2) v y vb f) =
    [h, b - 4 * k - b div 2, 4 * k, b div 2, v, 2, y, vb + 1]"
    using h v y b k hy n by (intro mode_timing_cvt_mode) (auto simp: vb_def)
  then show ?thesis
    using that [of _ b "4 * k" "vb + 1"] cvt b k hy n y by (auto simp: vb_def)
qed

lemma reduced_period:
  assumes rr: "1 \<le> rr" "rr \<le> 1000" and v: "1 \<le> v" "v \<le> 4096"
  obtains frame p where "fdiv 1000000 rr = Some frame"
    "fdiv (to_float (frame - 460)) (to_float (of_int v)) = Some p" "1 / 10 \<le> p"
proof -
  define frame where "frame = to_float (1000000 / rr)"
  have "1000000 / 1000 \<le> 1000000 / rr"
    using rr by (intro divide_left_mono) auto
  then have "999 \<le> frame"
    unfolding frame_def by (rule single.rnd_ge_near [rotated]) simp_all
  then have "539 \<le> frame - 460"
    by simp
  then have D: "538 \<le> to_float (frame - 460)"
    by (rule single.rnd_ge_near [rotated]) simp_all
  have V: "to_float (of_int v) = of_int v" "0 < (of_int v :: rat)" "of_int v \<le> (4096 :: rat)"
    using v by (auto intro: single.small_int)
  have "538 / 4096 \<le> to_float (frame - 460) / of_int v"
    using D V by (intro frac_le) auto
  then have "1 / 10 \<le> to_float (to_float (frame - 460) / of_int v)"
    by (rule single.rnd_ge_near [rotated]) simp_all
  then show ?thesis
    using that V rr by (auto simp: fdiv_def frame_def)
qed

lemma cvt_reduced_timing:
  assumes h: "160 \<le> h" "h \<le> 4096" and v: "1 \<le> v" "v \<le> 4096"
    and rr: "1 \<le> rr" "rr \<le> 1000" and y: "4 \<le> y" "y \<le> 10"
  obtains m vb where "cvt_reduced h v rr y = Some m"
    "mode_timing m = [h, 48, 32, 80, v, 2, y, vb]" "7 \<le> vb" "vb < 5500"
proof -
  obtain frame p where period: "fdiv 1000000 rr = Some frame"
    "fdiv (to_float (frame - 460)) (to_float (of_int v)) = Some p" and p: "1 / 10 \<le> p"
    using reduced_period [OF rr v] by blast
  obtain n where n: "fdiv 460 p = Some (to_float (460 / p))" "to_int (to_float (460 / p)) = Some n"
    "0 \<le> n" "n \<le> 5501" "i32 (n + 1) = Some (n + 1)"
    using lines_bound [of p 460] p by auto
  define a where "a = (if n + 1 < 3 + y + 6 then 3 + y + 6 else n + 1)"
  have a: "3 + y + 6 \<le> a" "a \<le> 5502"
    using n y by (auto simp: a_def)
  have "0 \<le> (a + v) * (160 + h)" "(a + v) * (160 + h) \<le> 9598 * 4256"
    using a v h y mult_mono [of "a + v" 9598 "160 + h" 4256] by simp_all
  then have px: "i32 ((a + v) * (160 + h)) = Some ((a + v) * (160 + h))"
    by (intro i32_id; linarith)
  have "cvt_reduced h v rr y = Some (cvt_mode h (160 - 32 - 80) 32 80 v y (a - 3 - y)
      (to_float (to_float (rr * to_float (of_int ((a + v) * (160 + h)))) / 1000000)))"
    by (simp only: cvt_reduced_def Let_def period n a_def [symmetric] px bind.bind_lunit)
  then obtain f where cvt: "cvt_reduced h v rr y = Some (cvt_mode h 48 32 80 v y (a - 3 - y) f)"
    by simp
  have "mode_timing (cvt_mode h 48 32 80 v y (a - 3 - y) f) =
    [h, 48, 32, 80, v, 2, y, a - 3 - y + 1]"
    using h v y a by (intro mode_timing_cvt_mode) auto
  then show ?thesis
    using that [of _ "a - 3 - y + 1"] cvt a y by auto
qed

text \<open>What a display needs of a mode: every interval is there, the active area is the size asked for
  with the width rounded down to a cell, and the back porch is half of the blanking.\<close>

definition valid_timing :: "int \<Rightarrow> int \<Rightarrow> int list \<Rightarrow> bool" where
  "valid_timing w h t \<longleftrightarrow>
     (case t of
        [ha, hf, hy, hb, va, vf, vy, vb] \<Rightarrow>
          ha = w - w mod 4 \<and> va = h \<and> 0 < hf \<and> 0 < hy \<and> hy mod 4 = 0 \<and> 0 < hb \<and> hf + hy + hb < ha \<and>
          hb = hf + hy \<and> vf = 2 \<and> 4 \<le> vy \<and> vy \<le> 10 \<and> 7 \<le> vb \<and> vb < 5500
      | _ \<Rightarrow> False)"

lemma find_mode_valid:
  assumes w: "160 \<le> uint w" "uint w \<le> 4096" and h: "1 \<le> uint h" "uint h \<le> 4096"
    and hz: "1 \<le> hz" "hz \<le> 1000"
  shows "\<exists>m. hdmi_find_mode w h hz = Some m \<and> valid_timing (uint w) (uint h) (mode_timing m)"
proof -
  define W where "W = uint w - uint w mod 4"
  have W: "160 \<le> W" "W \<le> 4096" "W mod 4 = 0" "uint w div 4 * 4 = W"
    using w by (auto simp: W_def minus_mod_eq_div_mult)
  have "0 \<le> uint w * uint h" "uint w * uint h \<le> 4096 * 4096"
    using w h mult_mono [of "uint w" 4096 "uint h" 4096] by simp_all
  then have px: "i32 (uint w * uint h) = Some (uint w * uint h)"
    by (intro i32_id; linarith)
  define y where "y = determine_vsync W (uint h)"
  have y: "4 \<le> y" "y \<le> 10"
    unfolding y_def by (rule determine_vsync_bounds)+
  show ?thesis
  proof (cases "1920 * 1080 < uint w * uint h")
    case True
    have "uint w * uint h \<le> uint w * 4096"
      using w h by (intro mult_left_mono) auto
    with True have "160 < W"
      unfolding W_def by simp
    moreover obtain m vb where "cvt_reduced W (uint h) hz y = Some m"
      "mode_timing m = [W, 48, 32, 80, uint h, 2, y, vb]" "7 \<le> vb" "vb < 5500"
      using cvt_reduced_timing [OF W(1,2) h hz y] by blast
    ultimately show ?thesis
      using True y px W
      by (simp add: hdmi_find_mode_def calculate_cvt_def CELL_GRAN_RND_def y_def Let_def
          valid_timing_def W_def)
  next
    case False
    obtain m b hy vb where "cvt_standard W (uint h) hz y = Some m"
      "mode_timing m = [W, b - hy - b div 2, hy, b div 2, uint h, 2, y, vb]"
      "8 * (W div 32) \<le> b" "2 * b \<le> W + 16" "b mod 8 = 0" "0 < hy" "hy mod 4 = 0" "2 * hy < b" "7 \<le> vb" "vb < 5500"
      using cvt_standard_timing [OF W(1,2,3) h hz y] by blast
    moreover from this have "hdmi_find_mode w h hz = Some m"
      using False px W by (simp add: hdmi_find_mode_def calculate_cvt_def CELL_GRAN_RND_def y_def Let_def)
    ultimately show ?thesis
      using y W(1) by (auto simp: valid_timing_def W_def [symmetric])
  qed
qed



end
