(* ===== verification/Hdmi_Pll.thy ===== *)
theory Hdmi_Pll
  imports Hdmi
begin

text \<open>
  The choice of clock generator parameters (hdmi.c). Both loops of findPLLpar end for every clock from
  1 kHz to 100 GHz, and the parameters that setPLL and crt_set_mode write produce the clock asked for.
  The two callers multiply the clock with different precision; what they rely on is the interface
  clock_product.
\<close>

declare of_nat_unat [simp del]

subsection \<open>The two loops\<close>

lemma c_loop_first:
  assumes "k \<le> n" "400 \<le> mul (of_nat n)"
  shows "\<exists>j. k \<le> j \<and> j \<le> n \<and> c_loop mul (of_nat k) = Some (of_nat j) \<and> 400 \<le> mul (of_nat j) \<and>
    (k < j \<longrightarrow> mul (of_nat (j - 1)) < 400)"
  using assms
proof (induction k rule: inc_induct)
  case base
  then show ?case
    by (auto simp: c_loop.simps)
next
  case (step k)
  show ?case
  proof (cases "mul (of_nat k) < 400")
    case True
    obtain j where j: "Suc k \<le> j" "j \<le> n" "c_loop mul (of_nat (Suc k)) = Some (of_nat j)"
      "400 \<le> mul (of_nat j)" "Suc k < j \<longrightarrow> mul (of_nat (j - 1)) < 400"
      using step by blast
    have "j = Suc k \<or> Suc k < j"
      using j(1) by auto
    then have "mul (of_nat (j - 1)) < 400"
      using j(5) True by auto
    moreover have "c_loop mul (of_nat k) = Some (of_nat j)"
      using True j(3) by (simp add: c_loop.simps [of mul "of_nat k"] add.commute)
    ultimately show ?thesis
      using j by (intro exI [of _ j]) auto
  next
    case False
    then show ?thesis
      using step.hyps by (intro exI [of _ k]) (auto simp: c_loop.simps)
  qed
qed

text \<open>The multiplier and the fraction that the loop body computes for a counter.\<close>

definition multiplier :: "rat \<Rightarrow> u32 \<Rightarrow> rat" where
  "multiplier F c = to_double (double_product F c / 50)"

definition pll_fit :: "rat \<Rightarrow> u32 \<Rightarrow> u32 \<Rightarrow> rat \<Rightarrow> bool" where
  "pll_fit F c m ko \<longleftrightarrow>
     to_u32 (multiplier F c) = Some m \<and> ko = to_double (multiplier F c - of_nat (unat m))"

lemma to_u32_parts:
  assumes "0 \<le> x" "x < 4294967296"
  obtains m where "to_u32 x = Some m" "rat_of_nat (unat m) \<le> x" "x < rat_of_nat (unat m) + 1"
proof -
  define n where "n = nat \<lfloor>x\<rfloor>"
  have n: "int n = \<lfloor>x\<rfloor>" "n < 4294967296"
    using assms by (auto simp: n_def nat_less_iff floor_less_iff)
  have "(of_int \<lfloor>x\<rfloor> :: u32) = of_nat n"
    by (simp flip: n(1))
  then have "unat (of_int \<lfloor>x\<rfloor> :: u32) = n"
    using n(2) by (simp add: unsigned_of_nat take_bit_nat_eq_self)
  moreover have "rat_of_nat n = of_int \<lfloor>x\<rfloor>"
    using n(1) by (metis of_int_of_nat_eq)
  ultimately show ?thesis
    using that [of "of_int \<lfloor>x\<rfloor>"] assms floor_correct [of x] by (simp add: to_u32_def)
qed

lemma par_loop_step:
  assumes "pll_fit F c m ko"
  shows "par_loop F c =
    (if in_range ko then Some (Some (c, m, ko))
     else if to_double (to_double (ko + of_nat (unat m)) * 50) > 1500 then Some None
     else par_loop F (c + 1))"
  using assms by (subst par_loop.simps) (simp add: pll_fit_def multiplier_def Let_def)

lemma multiplier_bounds:
  assumes "0 \<le> F" "F * of_nat (unat c) \<le> 1000000"
  shows "0 \<le> multiplier F c" "multiplier F c \<le> 20001"
proof -
  have P: "0 \<le> F * of_nat (unat c)"
    using assms by simp
  then have "0 \<le> double_product F c" "double_product F c \<le> 1000001"
    unfolding double_product_def using assms
    by (auto intro: double.rnd_nonneg double.rnd_le_near [of _ 1000000])
  then show "0 \<le> multiplier F c" "multiplier F c \<le> 20001"
    unfolding multiplier_def by (auto intro!: double.rnd_nonneg double.rnd_le_near [of _ "1000001 / 50"])
qed

lemma pll_fit_exists:
  assumes "0 \<le> F" "F * of_nat (unat c) \<le> 1000000"
  obtains m ko where "pll_fit F c m ko" "0 \<le> ko" "ko \<le> 1"
    "rat_of_nat (unat m) \<le> multiplier F c" "multiplier F c < rat_of_nat (unat m) + 1"
proof -
  obtain m where m: "to_u32 (multiplier F c) = Some m" "rat_of_nat (unat m) \<le> multiplier F c"
    "multiplier F c < rat_of_nat (unat m) + 1"
    using to_u32_parts [of "multiplier F c"] multiplier_bounds [OF assms] by auto
  define f where "f = multiplier F c - of_nat (unat m)"
  have "0 \<le> f" "f \<le> 1"
    using m by (auto simp: f_def)
  then have "0 \<le> to_double f" "to_double f \<le> 1"
    using double.rnd_nonneg [of f] double.rnd_le_int [of 1 f] by auto
  then show ?thesis
    using that [of m "to_double f"] m by (simp add: pll_fit_def f_def)
qed

text \<open>The second loop has stopped when the oscillator would reach 1600 MHz.\<close>

lemma fvco_high:
  assumes "pll_fit F c m ko" "0 \<le> ko" "multiplier F c < rat_of_nat (unat m) + 1"
    and "1600 \<le> F * of_nat (unat c)"
  shows "to_double (to_double (ko + of_nat (unat m)) * 50) > 1500"
proof -
  have "1600 \<le> double_product F c"
    unfolding double_product_def using assms(4) double.rnd_ge_int [of 1600] by simp
  then have "32 \<le> multiplier F c"
    unfolding multiplier_def using double.rnd_ge_int [of 32 "double_product F c / 50"] by simp
  then have "rat_of_nat 31 < rat_of_nat (unat m)"
    using assms(3) by simp
  then have "32 \<le> unat m"
    by (simp only: of_nat_less_iff)
  then have "rat_of_nat 32 \<le> rat_of_nat (unat m)"
    by (rule of_nat_mono)
  then have "32 \<le> to_double (ko + of_nat (unat m))"
    using assms(2) double.rnd_ge_int [of 32 "ko + of_nat (unat m)"] by simp
  then show ?thesis
    using double.rnd_ge_int [of 1600 "to_double (ko + of_nat (unat m)) * 50"] by simp
qed

lemma par_loop_returns:
  assumes "k \<le> n" "n < 4294967296" "0 \<le> F" "F * of_nat n \<le> 1000000" "1600 \<le> F * of_nat n"
  shows "\<exists>r. par_loop F (of_nat k) = Some r \<and>
    (case r of None \<Rightarrow> True
     | Some (c, m, ko) \<Rightarrow> k \<le> unat c \<and> unat c \<le> n \<and> pll_fit F c m ko \<and> in_range ko)"
  using assms
proof (induction k rule: inc_induct)
  case base
  have n: "unat (of_nat n :: u32) = n"
    using base by (simp add: unsigned_of_nat take_bit_nat_eq_self)
  have "F * of_nat (unat (of_nat n :: u32)) \<le> 1000000"
    using assms(4) n by simp
  then obtain m ko where fit: "pll_fit F (of_nat n) m ko" "0 \<le> ko"
    "multiplier F (of_nat n) < rat_of_nat (unat m) + 1"
    using pll_fit_exists [OF assms(3)] by blast
  then show ?case
    using par_loop_step [OF fit(1)] fvco_high [OF fit] base n by auto
next
  case (step k)
  have n: "unat (of_nat k :: u32) = k"
    using step by (simp add: unsigned_of_nat take_bit_nat_eq_self)
  have "F * of_nat k \<le> F * of_nat n"
    using step by (intro mult_left_mono) auto
  then have "F * of_nat (unat (of_nat k :: u32)) \<le> 1000000"
    using assms(4) n by simp
  then obtain m ko where fit: "pll_fit F (of_nat k) m ko"
    using pll_fit_exists [OF assms(3)] by blast
  obtain r where "par_loop F (of_nat (Suc k)) = Some r"
    "case r of None \<Rightarrow> True
     | Some (c, m, ko) \<Rightarrow> Suc k \<le> unat c \<and> unat c \<le> n \<and> pll_fit F c m ko \<and> in_range ko"
    using step by blast
  then have "par_loop F (of_nat k + 1) = Some r \<and> (case r of None \<Rightarrow> True
     | Some (c, m, ko) \<Rightarrow> k \<le> unat c \<and> unat c \<le> n \<and> pll_fit F c m ko \<and> in_range ko)"
    by (auto simp: add.commute split: option.splits)
  then show ?case
    using par_loop_step [OF fit] fit n step.hyps by (auto split: if_splits)
qed

subsection \<open>Products of the clock and the counter\<close>

text \<open>What the choice of the counters needs of the product, whatever its precision.\<close>

locale clock_product =
  fixes mul :: "rat \<Rightarrow> u32 \<Rightarrow> rat"
  assumes reach_law: "unat c \<le> 16777216 \<Longrightarrow> 400 \<le> F * of_nat (unat c) \<Longrightarrow> 400 \<le> mul F c"
    and near_law: "unat c \<le> 16777216 \<Longrightarrow> 0 \<le> F \<Longrightarrow>
      \<bar>mul F c - F * of_nat (unat c)\<bar> \<le> F * of_nat (unat c) / 16777216"
begin

lemma first_counter:
  assumes F: "1 / 1000 \<le> F"
  obtains c where "c_loop (mul F) 1 = Some c" "0 < unat c" "unat c \<le> 400000" "400 \<le> mul F c"
    "F * of_nat (unat c) \<le> 400 + F"
proof -
  obtain n where n: "1 \<le> n" "n \<le> 400000" "400 / F \<le> of_nat n"
  proof -
    define i where "i = \<lceil>400 / F\<rceil>"
    have "400 / F \<le> 400 / (1 / 1000)"
      using F by (intro divide_left_mono) auto
    then have "400 / F \<le> of_int 400000"
      by simp
    then have "i \<le> 400000"
      unfolding i_def by (simp only: ceiling_le_iff)
    moreover have "0 < i"
      using F by (simp add: i_def)
    moreover have "400 / F \<le> of_int i"
      by (simp add: i_def)
    ultimately show thesis
      using that [of "nat i"] by simp
  qed
  have reach: "400 \<le> F * of_nat n"
    using F n(3) by (simp add: field_simps)
  have un: "j \<le> 400000 \<Longrightarrow> unat (of_nat j :: u32) = j" for j
    by (simp add: unsigned_of_nat take_bit_nat_eq_self)
  have "400 \<le> mul F (of_nat n)"
    using reach n by (intro reach_law) (auto simp: un)
  then obtain j where j: "1 \<le> j" "j \<le> n" "c_loop (mul F) (of_nat 1) = Some (of_nat j)"
    "400 \<le> mul F (of_nat j)" "1 < j \<longrightarrow> mul F (of_nat (j - 1)) < 400"
    using c_loop_first [OF n(1), of "mul F"] by blast
  have "F * of_nat (j - 1) < 400"
  proof (cases "1 < j")
    case True
    define i where "i = j - 1"
    have i: "unat (of_nat i :: u32) = i" "mul F (of_nat i) < 400" "i \<le> 16777216"
      using True j n un [of i] by (auto simp: i_def)
    then have "\<not> 400 \<le> F * of_nat i"
      using reach_law [of "of_nat i" F] by auto
    then show ?thesis
      by (simp add: i_def)
  qed (use j F in auto)
  then have "F * of_nat j \<le> 400 + F"
    using j(1) F by (simp add: of_nat_diff algebra_simps)
  then show ?thesis
    using that [of "of_nat j"] j n un [of j] by simp
qed

end

interpretation hdmi_clock: clock_product double_product
proof
  show "400 \<le> double_product F c" if "400 \<le> F * of_nat (unat c)" for F c
    using that double.rnd_ge_int [of 400] by (simp add: double_product_def)
  show "\<bar>double_product F c - F * of_nat (unat c)\<bar> \<le> F * of_nat (unat c) / 16777216" if "0 \<le> F" for F c
    using that double.rnd_error [of "F * of_nat (unat c)"] by (simp add: double_product_def)
qed

lemma to_float_counter: "unat c \<le> 16777216 \<Longrightarrow> to_float (of_nat (unat c)) = of_nat (unat c)"
  using single.small_int [of "int (unat c)"] by simp

interpretation crt_clock: clock_product float_product
proof
  show "400 \<le> float_product F c" if "unat c \<le> 16777216" "400 \<le> F * of_nat (unat c)" for F c
    using that single.rnd_ge_int [of 400] by (simp add: float_product_def to_float_counter)
  show "\<bar>float_product F c - F * of_nat (unat c)\<bar> \<le> F * of_nat (unat c) / 16777216"
    if "unat c \<le> 16777216" "0 \<le> F" for F c
    using that single.rnd_error [of "F * of_nat (unat c)"]
    by (simp add: float_product_def to_float_counter)
qed

subsection \<open>The frequency of the parameters\<close>

text \<open>The frequency the generator produces from its 50 MHz reference: the counter divides the
  oscillator, which runs at the whole and the fractional multiplier.\<close>

definition pll_frequency :: "u32 \<Rightarrow> u32 \<Rightarrow> u32 \<Rightarrow> rat" where
  "pll_frequency c m k =
     50 * (of_nat (unat m) + of_nat (unat k) / 4294967296) / of_nat (unat c)"

text \<open>Parameters that produce a clock: the counter and the whole multiplier are positive, the fraction is
  off or in the range the generator allows, and the frequency is the wanted one up to the relative
  error e.\<close>

definition pll_good :: "rat \<Rightarrow> rat \<Rightarrow> u32 \<times> u32 \<times> u32 \<Rightarrow> bool" where
  "pll_good F e p \<longleftrightarrow>
     (case p of (c, m, k) \<Rightarrow>
        0 < unat c \<and> 8 \<le> unat m \<and> F * of_nat (unat c) \<le> 1600 + F \<and>
        (k = 1 \<or> 49 / 1001 \<le> of_nat (unat k) / (4294967296 :: rat) \<and>
                  of_nat (unat k) / (4294967296 :: rat) \<le> 951 / 999) \<and>
        \<bar>pll_frequency c m k - F\<bar> \<le> e * F)"

lemma frequency_error:
  assumes "0 < unat c"
    and "\<bar>of_nat (unat m) + of_nat (unat k) / 4294967296 - F * of_nat (unat c) / 50\<bar>
      \<le> e * (F * of_nat (unat c) / 50)"
  shows "\<bar>pll_frequency c m k - F\<bar> \<le> e * F"
proof -
  define C where "C = rat_of_nat (unat c)"
  define M where "M = rat_of_nat (unat m) + of_nat (unat k) / 4294967296"
  have C: "0 < C"
    using assms(1) by (simp add: C_def)
  then have "pll_frequency c m k - F = 50 / C * (M - F * C / 50)"
    by (simp add: pll_frequency_def C_def [symmetric] M_def [symmetric] field_simps)
  then have "\<bar>pll_frequency c m k - F\<bar> = 50 / C * \<bar>M - F * C / 50\<bar>"
    using C by (simp only: abs_mult) simp
  also have "\<dots> \<le> 50 / C * (e * (F * C / 50))"
    using assms(2) C by (intro mult_left_mono) (auto simp: C_def M_def)
  also have "\<dots> = e * F"
    using C by simp
  finally show ?thesis .
qed

lemma fraction_word_near:
  assumes "ko = 0 \<or> 49 / 1000 \<le> ko \<and> ko \<le> 951 / 1000"
  obtains k where "fraction_word ko = Some k" "\<bar>of_nat (unat k) / 4294967296 - ko\<bar> \<le> 2 / 16777216"
    "k = 1 \<or> 49 / 1001 \<le> of_nat (unat k) / (4294967296 :: rat) \<and> of_nat (unat k) / (4294967296 :: rat) \<le> 951 / 999"
proof (cases "ko = 0")
  case True
  then show ?thesis
    using that [of 1] by (simp add: fraction_word_def)
next
  case False
  then have ko: "49 / 1000 \<le> ko" "ko \<le> 951 / 1000"
    using assms by auto
  define z where "z = to_double (ko * 4294967296)"
  have err: "\<bar>z - ko * 4294967296\<bar> \<le> ko * 4294967296 / 16777216"
    unfolding z_def using ko by (intro double.rnd_error) simp
  then have z: "0 \<le> z" "z < 4294967296"
    using ko by (simp_all add: abs_le_iff)
  then obtain k where k: "to_u32 z = Some k" "rat_of_nat (unat k) \<le> z" "z < rat_of_nat (unat k) + 1"
    using to_u32_parts by blast
  define K where "K = rat_of_nat (unat k) / 4294967296"
  have "rat_of_nat (unat k) = K * 4294967296"
    by (simp add: K_def)
  with k(2,3) have "K * 4294967296 \<le> z" "z < K * 4294967296 + 1"
    by simp_all
  then have K: "\<bar>K - ko\<bar> \<le> 2 / 16777216"
    using err ko unfolding abs_le_iff by linarith
  moreover from this have "49 / 1001 \<le> K" "K \<le> 951 / 999"
    using ko unfolding abs_le_iff by linarith+
  ultimately show ?thesis
    using that [of k] k(1) False by (simp add: fraction_word_def z_def [symmetric] K_def)
qed

lemma in_range_bounds: "in_range ko \<Longrightarrow> ko = 0 \<or> 49 / 1000 \<le> ko \<and> ko \<le> 951 / 1000"
  using single.rnd_ge_near [of "5 / 100" "5 / 100" "49 / 1000"]
    single.rnd_le_near [of "95 / 100" "95 / 100" "951 / 1000"]
  by (auto simp: in_range_def)

text \<open>The multiplier from a product near the wanted oscillator frequency, and its two parts.\<close>

lemma multiplier_error:
  assumes "0 \<le> x" "\<bar>P - x\<bar> \<le> x / 16777216"
  shows "\<bar>to_double (P / 50) - x / 50\<bar> \<le> 3 / 16777216 * (x / 50)"
proof -
  have P: "P \<le> x + x / 16777216" "x - x / 16777216 \<le> P"
    using assms(2) unfolding abs_le_iff by linarith+
  then have "0 \<le> P / 50"
    using assms(1) by simp
  then have "\<bar>to_double (P / 50) - P / 50\<bar> \<le> P / 50 / 16777216"
    by (rule double.rnd_error)
  then show ?thesis
    using P assms(1) unfolding abs_le_iff by linarith
qed

lemma fraction_error:
  assumes "M \<le> q" "q < M + 1"
  shows "\<bar>M + to_double (q - M) - q\<bar> \<le> 1 / 16777216" "0 \<le> to_double (q - M)" "to_double (q - M) \<le> 1"
proof -
  define f where "f = q - M"
  have f: "0 \<le> f" "f \<le> 1"
    using assms by (simp_all add: f_def)
  show "0 \<le> to_double (q - M)" "to_double (q - M) \<le> 1"
    using f double.rnd_nonneg [of f] double.rnd_le_int [of 1 f] by (simp_all add: f_def)
  have "\<bar>to_double f - f\<bar> \<le> f / 16777216"
    using f by (intro double.rnd_error)
  then have "\<bar>to_double f - f\<bar> \<le> 1 / 16777216"
    using f by linarith
  moreover have "M + to_double f - q = to_double f - f"
    by (simp add: f_def)
  ultimately show "\<bar>M + to_double (q - M) - q\<bar> \<le> 1 / 16777216"
    by (simp only: f_def [symmetric])
qed

lemma whole_part_ge:
  assumes "400 \<le> P" "to_double (P / 50) < rat_of_nat n + 1"
  shows "8 \<le> n"
proof -
  have "8 \<le> to_double (P / 50)"
    using assms(1) double.rnd_ge_int [of 8 "P / 50"] by simp
  then have "rat_of_nat 7 < rat_of_nat n"
    using assms(2) by simp
  then show ?thesis
    by (simp only: of_nat_less_iff)
qed

text \<open>Parameters whose oscillator frequency is as wanted up to the error e of the multiplier.\<close>

definition near_clock :: "rat \<Rightarrow> rat \<Rightarrow> u32 \<times> u32 \<times> rat \<Rightarrow> bool" where
  "near_clock F e p \<longleftrightarrow>
     (case p of (c, m, ko) \<Rightarrow>
        0 < unat c \<and> 8 \<le> unat m \<and> 399 \<le> F * of_nat (unat c) \<and> F * of_nat (unat c) \<le> 1600 + F \<and> (ko = 0 \<or> 49 / 1000 \<le> ko \<and> ko \<le> 951 / 1000) \<and>
        \<bar>of_nat (unat m) + ko - F * of_nat (unat c) / 50\<bar> \<le> 3 / 16777216 * (F * of_nat (unat c) / 50) + e)"

lemma near_clock_frequency:
  assumes "near_clock F e (c, m, ko)" "fraction_word ko = Some k"
    "\<bar>of_nat (unat k) / 4294967296 - ko\<bar> \<le> 2 / 16777216" "0 \<le> e"
  shows "\<bar>pll_frequency c m k - F\<bar> \<le> (4 / 16777216 + e / 7) * F"
proof (rule frequency_error)
  define X where "X = F * of_nat (unat c) / 50"
  show "0 < unat c"
    using assms(1) by (simp add: near_clock_def)
  have X: "7 \<le> X" "\<bar>of_nat (unat m) + ko - X\<bar> \<le> 3 / 16777216 * X + e"
    using assms(1) by (simp_all add: near_clock_def X_def)
  have "e / 7 * 7 \<le> e / 7 * X"
    using X(1) assms(4) by (intro mult_left_mono) auto
  then show "\<bar>of_nat (unat m) + of_nat (unat k) / 4294967296 - F * of_nat (unat c) / 50\<bar>
    \<le> (4 / 16777216 + e / 7) * (F * of_nat (unat c) / 50)"
    using X assms(3) unfolding X_def [symmetric] abs_le_iff distrib_right by linarith
qed

lemma ceiling_nat:
  fixes F :: rat
  assumes "0 < F"
  obtains n where "1600 \<le> F * of_nat n" "F * of_nat n \<le> 1600 + F"
proof -
  define i where "i = \<lceil>1600 / F\<rceil>"
  have "0 < i"
    using assms by (simp add: i_def)
  moreover have "1600 / F \<le> of_int i" "of_int i \<le> 1600 / F + 1"
    using ceiling_correct [of "1600 / F"] by (simp_all add: i_def)
  then have "1600 \<le> F * of_int i" "F * of_int i \<le> 1600 + F"
    using assms by (simp_all add: field_simps)
  ultimately show ?thesis
    using that [of "nat i"] by simp
qed

lemma double_product_mono: "0 \<le> F \<Longrightarrow> unat c \<le> unat d \<Longrightarrow> double_product F c \<le> double_product F d"
  unfolding double_product_def by (intro double.mono_law mult_left_mono) auto

lemma pll_fit_near:
  assumes fit: "pll_fit F c m ko" "in_range ko" and F: "0 \<le> F" "F \<le> 100000" "F * of_nat (unat c) \<le> 1600 + F"
    and c: "0 < unat c" "unat c \<le> 16777216" and P: "400 \<le> double_product F c"
  shows "near_clock F (1 / 16777216) (c, m, ko)"
proof -
  define x where "x = F * of_nat (unat c)"
  have near: "\<bar>double_product F c - x\<bar> \<le> x / 16777216"
    unfolding x_def using c F by (intro hdmi_clock.near_law)
  then have x: "399 \<le> x"
    using P unfolding abs_le_iff by linarith
  then have q: "\<bar>multiplier F c - x / 50\<bar> \<le> 3 / 16777216 * (x / 50)"
    unfolding multiplier_def using near by (intro multiplier_error) auto
  obtain m' ko' where "pll_fit F c m' ko'" "0 \<le> ko'" "ko' \<le> 1"
    and m': "rat_of_nat (unat m') \<le> multiplier F c" "multiplier F c < rat_of_nat (unat m') + 1"
    using pll_fit_exists [of F c] F by auto
  then have m: "rat_of_nat (unat m) \<le> multiplier F c" "multiplier F c < rat_of_nat (unat m) + 1"
    and ko: "ko = to_double (multiplier F c - of_nat (unat m))"
    using fit(1) by (auto simp: pll_fit_def)
  have "8 \<le> unat m"
    using P m(2) unfolding multiplier_def by (rule whole_part_ge)
  moreover have "\<bar>of_nat (unat m) + ko - x / 50\<bar> \<le> 3 / 16777216 * (x / 50) + 1 / 16777216"
    using fraction_error(1) [OF m] q unfolding ko abs_le_iff by linarith
  ultimately show ?thesis
    using x c F in_range_bounds [OF fit(2)] by (simp only: near_clock_def x_def) simp
qed

lemma findPLLpar_returns:
  assumes F: "1 / 1000 \<le> F" "F \<le> 100000"
  shows "\<exists>r. findPLLpar F = Some r \<and> (\<forall>p. r = Some p \<longrightarrow> near_clock F (1 / 16777216) p)"
proof -
  obtain c where c: "c_loop (double_product F) 1 = Some c" "0 < unat c" "unat c \<le> 400000"
    "400 \<le> double_product F c" "F * of_nat (unat c) \<le> 400 + F"
    using hdmi_clock.first_counter [OF F(1)] .
  obtain n where n: "1600 \<le> F * of_nat n" "F * of_nat n \<le> 1600 + F"
    using ceiling_nat [of F] F by auto
  define N where "N = max (unat c) n"
  have FN: "F * of_nat N \<le> 1600 + F" "1600 \<le> F * of_nat N"
    using c(5) n F by (auto simp: N_def max_def intro: order_trans mult_left_mono)
  have "rat_of_nat N \<le> 1600 / F + 1"
    using FN F by (simp add: field_simps)
  also have "1600 / F \<le> 1600 / (1 / 1000)"
    using F by (intro divide_left_mono) auto
  finally have "rat_of_nat N \<le> rat_of_nat 1600001"
    by simp
  then have N: "N \<le> 1600001"
    by (simp only: of_nat_le_iff)
  have "unat c \<le> N"
    by (simp add: N_def)
  then obtain r where r: "par_loop F (of_nat (unat c)) = Some r"
    "case r of None \<Rightarrow> True
     | Some (d, m, ko) \<Rightarrow> unat c \<le> unat d \<and> unat d \<le> N \<and> pll_fit F d m ko \<and> in_range ko"
    using par_loop_returns [of "unat c" N F] N FN F by auto
  have "near_clock F (1 / 16777216) (d, m, ko)" if "r = Some (d, m, ko)" for d m ko
  proof (rule pll_fit_near)
    have d: "unat c \<le> unat d" "unat d \<le> N" "pll_fit F d m ko" "in_range ko"
      using r(2) that by auto
    then show "pll_fit F d m ko" "in_range ko" "0 < unat d" "unat d \<le> 16777216" "0 \<le> F" "F \<le> 100000"
      using c N F by auto
    show "400 \<le> double_product F d"
      using c(4) double_product_mono [OF _ d(1), of F] F by simp
    have "F * of_nat (unat d) \<le> F * of_nat N"
      using d F by (intro mult_left_mono) auto
    then show "F * of_nat (unat d) \<le> 1600 + F"
      using FN by linarith
  qed
  moreover have "findPLLpar F = Some r"
    using c(1) r(1) by (simp add: findPLLpar_def of_nat_unat)
  ultimately show ?thesis
    by auto
qed

context clock_product
begin

lemma fallback_returns:
  assumes F: "1 / 1000 \<le> F" "F \<le> 100000"
  shows "\<exists>p. pll_fallback (mul F) = Some p \<and> near_clock F (3 / 50) p"
proof -
  obtain c where c: "c_loop (mul F) 1 = Some c" "0 < unat c" "unat c \<le> 400000" "400 \<le> mul F c"
    "F * of_nat (unat c) \<le> 400 + F"
    using first_counter [OF F(1)] .
  define x where "x = F * of_nat (unat c)"
  have near: "\<bar>mul F c - x\<bar> \<le> x / 16777216"
    unfolding x_def using c F by (intro near_law) auto
  have x: "399 \<le> x" "x \<le> 100400"
    using c(4,5) F near unfolding abs_le_iff x_def by linarith+
  define q where "q = to_double (mul F c / 50)"
  have q: "\<bar>q - x / 50\<bar> \<le> 3 / 16777216 * (x / 50)"
    unfolding q_def using near x by (intro multiplier_error) auto
  then have "0 \<le> q" "q < 4294967296"
    using x unfolding abs_le_iff by linarith+
  then obtain m where m: "to_u32 q = Some m" "rat_of_nat (unat m) \<le> q" "q < rat_of_nat (unat m) + 1"
    using to_u32_parts by blast
  define ko where "ko = to_double (q - of_nat (unat m))"
  note fr = fraction_error [OF m(2,3), folded ko_def]
  have m8: "8 \<le> unat m"
    using c(4) m(3) unfolding q_def by (rule whole_part_ge)
  have "rat_of_nat (unat m) < rat_of_nat 4000"
    using m(2) q x unfolding abs_le_iff by simp
  then have "unat m < 4000"
    by (simp only: of_nat_less_iff)
  then have m1: "unat (m + 1) = unat m + 1"
    by (subst unat_add_lem [THEN iffD1]) simp_all
  have lo: "to_float (5 / 100) \<le> 51 / 1000" "49 / 1000 \<le> to_float (5 / 100)"
    by (rule single.rnd_le_near [OF _ order_refl] single.rnd_ge_near [OF _ order_refl]; simp)+
  have hi: "to_float (95 / 100) \<le> 951 / 1000" "949 / 1000 \<le> to_float (95 / 100)"
    by (rule single.rnd_le_near [OF _ order_refl] single.rnd_ge_near [OF _ order_refl]; simp)+
  define p where "p = (if ko \<le> to_float (5 / 100) then (c, m, 0)
    else if ko \<ge> to_float (95 / 100) then (c, m + 1, 0) else (c, m, ko))"
  have "pll_fallback (mul F) = Some p"
    using c(1) m(1) by (simp add: pll_fallback_def q_def [symmetric] ko_def [symmetric] p_def)
  moreover have near: "near_clock F (3 / 50) (c, m', ko')"
    if "unat m \<le> unat m'" "ko' = 0 \<or> 49 / 1000 \<le> ko' \<and> ko' \<le> 951 / 1000"
      "\<bar>of_nat (unat m') + ko' - (of_nat (unat m) + ko)\<bar> \<le> 59 / 1000" for m' ko'
  proof -
    have "\<bar>of_nat (unat m') + ko' - x / 50\<bar> \<le> 3 / 16777216 * (x / 50) + 3 / 50"
      using that(3) fr(1) q unfolding abs_le_iff by linarith
    then show ?thesis
      using that c(2,5) m8 x(1) by (simp only: near_clock_def x_def) simp
  qed
  have "near_clock F (3 / 50) p"
    unfolding p_def using fr lo hi m1 by (auto intro!: near)
  ultimately show ?thesis
    by blast
qed

lemma params_return:
  assumes F: "1 / 1000 \<le> F" "F \<le> 100000"
  shows "\<exists>c m k. pll_params (mul F) F = Some (c, m, k) \<and> pll_good F (1 / 100) (c, m, k) \<and>
    (findPLLpar F \<noteq> Some None \<longrightarrow> pll_good F (1 / 1000000) (c, m, k))"
proof -
  obtain r where r: "findPLLpar F = Some r" "\<And>p. r = Some p \<Longrightarrow> near_clock F (1 / 16777216) p"
    using findPLLpar_returns [OF F] by blast
  obtain p e where p: "(case r of Some p \<Rightarrow> Some p | None \<Rightarrow> pll_fallback (mul F)) = Some p"
    "near_clock F e p" "0 \<le> e" "e \<le> 3 / 50" "r \<noteq> None \<longrightarrow> e = 1 / 16777216"
  proof (cases r)
    case None
    then show ?thesis
      using fallback_returns [OF F] that [of _ "3 / 50"] by auto
  next
    case (Some p)
    then show ?thesis
      using r(2) [OF Some] that [of p "1 / 16777216"] by auto
  qed
  obtain c m ko where pc: "p = (c, m, ko)"
    by (cases p)
  obtain k where k: "fraction_word ko = Some k" "\<bar>of_nat (unat k) / 4294967296 - ko\<bar> \<le> 2 / 16777216"
    "k = 1 \<or> 49 / 1001 \<le> of_nat (unat k) / (4294967296 :: rat) \<and> of_nat (unat k) / (4294967296 :: rat) \<le> 951 / 999"
    using fraction_word_near [of ko] p(2) by (auto simp: pc near_clock_def)
  have err: "\<bar>pll_frequency c m k - F\<bar> \<le> (4 / 16777216 + e / 7) * F"
    using p(2,3) k(1,2) unfolding pc by (intro near_clock_frequency) auto
  have "(4 / 16777216 + e / 7) * F \<le> d * F" if "4 / 16777216 + e / 7 \<le> d" for d
    using that F by (intro mult_right_mono) auto
  then have good: "pll_good F d (c, m, k)" if "4 / 16777216 + e / 7 \<le> d" for d
    using that err k(3) p(2) by (fastforce simp: pll_good_def pc near_clock_def)
  have "pll_good F (1 / 100) (c, m, k)"
    using p(4) by (intro good) simp
  moreover have "pll_good F (1 / 1000000) (c, m, k)" if "findPLLpar F \<noteq> Some None"
    using p(5) that r(1) by (intro good) auto
  moreover have "pll_params (mul F) F = Some (c, m, k)"
    using p(1) r(1) k(1) by (simp add: pll_params_def pc)
  ultimately show ?thesis
    by blast
qed

end

text \<open>C19. findPLLpar ends for every clock from 1 kHz to 100 GHz, although neither of its loops has a
  bound of its own. When it finds parameters, the counter is positive, the oscillator runs at 399 MHz
  or more, the whole multiplier is at least eight, the fraction is zero or in the range the generator
  allows, and the multiplier agrees with the wanted oscillator frequency up to the rounding of the
  double precision arithmetic.\<close>

theorem findPLLpar_terminates:
  assumes "1 / 1000 \<le> F" "F \<le> 100000"
  shows "\<exists>r. findPLLpar F = Some r \<and> (\<forall>p. r = Some p \<longrightarrow> near_clock F (1 / 16777216) p)"
  using assms by (rule findPLLpar_returns)

theorem findPLLpar_terminates_witness:
  "\<exists>r. findPLLpar (297 / 2) = Some r \<and> (\<forall>p. r = Some p \<longrightarrow> near_clock (297 / 2) (1 / 16777216) p)"
  using findPLLpar_terminates [of "297 / 2"] by simp

end
