(* ===== verification/Hdmi_Set.thy ===== *)
theory Hdmi_Set
  imports Hdmi_Modes Hdmi_Pll
begin

text \<open>
  What hdmi_set_mode and crt_set_mode (hdmi.c) deliver to the hardware: the divider registers, the
  transactions on the bridge to the HPS, and the registers of the local video timing.
\<close>

unbundle bit_operations_syntax

subsection \<open>Divider registers\<close>

text \<open>The divider that the generator reads from a counter register: the sum of its high and low count.
  Bit 16 bypasses the divider, bit 17 marks an odd one.\<close>

definition div_count :: "u32 \<Rightarrow> nat" where
  "div_count r = unat (drop_bit 8 r AND 0xff) + unat (r AND 0xff)"

lemma byte_bit: "unat w < 256 \<Longrightarrow> bit (w :: u32) i \<Longrightarrow> i < 8"
proof -
  assume "unat w < 256"
  then have "w = take_bit 8 w"
    by (simp add: word_eq_iff_unsigned word_unat_eq_iff unsigned_take_bit_eq take_bit_nat_eq_self)
  then show "bit w i \<Longrightarrow> i < 8"
    by (metis bit_take_bit_iff)
qed

lemma flag_bit: "bit (0x20000 :: u32) i \<longleftrightarrow> i = 17"
proof -
  have "(0x20000 :: u32) = push_bit 17 1"
    by simp
  then show ?thesis
    by (auto simp only: bit_push_bit_iff bit_1_iff possible_bit_word) simp_all
qed

lemma div_register:
  assumes "unat hi < 256" "unat lo < 256" "f = 0 \<or> f = (0x20000 :: u32)"
  defines "r \<equiv> f OR push_bit 8 hi OR lo"
  shows "drop_bit 8 r AND 0xff = hi" "r AND 0xff = lo" "bit r 17 \<longleftrightarrow> f \<noteq> 0" "\<not> bit r 16"
proof -
  have m: "(0xff :: u32) = mask 8"
    by (simp add: mask_eq_exp_minus_1)
  have f: "bit f i \<longleftrightarrow> f \<noteq> 0 \<and> i = 17" for i
    using assms(3) flag_bit [of i] by auto
  note b = byte_bit [OF assms(1)] byte_bit [OF assms(2)]
  show "drop_bit 8 r AND 0xff = hi"
    unfolding r_def m by (rule bit_word_eqI, insert b, auto simp: bit_simps f, fastforce+)
  show "r AND 0xff = lo"
    unfolding r_def m by (rule bit_word_eqI, insert b) (auto simp: bit_simps f)
  show "bit r 17 \<longleftrightarrow> f \<noteq> 0" "\<not> bit r 16"
    using b(1) [of 9] b(1) [of 8] b(2) [of 17] b(2) [of 16] by (auto simp: r_def bit_simps f)
qed

lemma getPLLdiv_register:
  assumes "unat d \<le> 510"
  shows "div_count (getPLLdiv d) = unat d" "bit (getPLLdiv d) 17 \<longleftrightarrow> odd (unat d)" "\<not> bit (getPLLdiv d) 16"
proof -
  define lo where "lo = d div 2"
  have lo: "unat lo = unat d div 2"
    by (simp add: lo_def unat_div)
  have hi: "unat (lo + 1) = unat lo + 1"
    using assms lo by (subst unat_add_lem [THEN iffD1]) simp_all
  have ev: "d AND 1 = 0 \<longleftrightarrow> even (unat d)"
    by (simp add: and_one_eq word_unat_eq_iff unat_mod even_iff_mod_2_eq_zero)
  have "div_count (getPLLdiv d) = unat d \<and> (bit (getPLLdiv d) 17 \<longleftrightarrow> odd (unat d)) \<and> \<not> bit (getPLLdiv d) 16"
  proof (cases "even (unat d)")
    case True
    then have g: "getPLLdiv d = 0 OR push_bit 8 lo OR lo"
      by (simp add: getPLLdiv_def ev lo_def)
    have "unat lo < 256"
      using assms lo by simp
    from div_register [OF this this, of 0] show ?thesis
      using True lo unfolding g div_count_def by (auto elim!: evenE)
  next
    case False
    then have g: "getPLLdiv d = 0x20000 OR push_bit 8 (lo + 1) OR lo"
      by (simp add: getPLLdiv_def ev lo_def)
    have "unat (lo + 1) < 256" "unat lo < 256"
      using assms lo hi False by (auto elim!: oddE)
    from div_register [OF this disjI2 [OF refl]] show ?thesis
      using False lo hi unfolding g div_count_def by (auto elim!: oddE)
  qed
  then show "div_count (getPLLdiv d) = unat d" "bit (getPLLdiv d) 17 \<longleftrightarrow> odd (unat d)"
    "\<not> bit (getPLLdiv d) 16"
    by blast+
qed

text \<open>C21. Counters survive the encoding for the generator: for every counter up to 510 the high and the
  low count of the register add up to it, the odd flag says whether it is odd, and the bypass bit is
  clear.\<close>

theorem getPLLdiv_roundtrip:
  assumes "unat d \<le> 510"
  shows "div_count (getPLLdiv d) = unat d \<and> (bit (getPLLdiv d) 17 \<longleftrightarrow> odd (unat d)) \<and>
    \<not> bit (getPLLdiv d) 16"
  using getPLLdiv_register [OF assms] by simp

theorem getPLLdiv_roundtrip_witness:
  "div_count (getPLLdiv 29) = 29 \<and> bit (getPLLdiv 29) 17 \<and> \<not> bit (getPLLdiv 29) 16"
  using getPLLdiv_roundtrip [of 29] by simp

text \<open>A counter above 510 does not fit its register: it spills into the bypass bit.\<close>

lemma spill:
  assumes "256 \<le> unat hi" "unat hi < 512"
  shows "bit (f OR push_bit 8 hi OR lo :: u32) 16"
proof -
  have "unat hi div 256 = 1"
    using assms by simp
  then have "bit (unat hi) 8"
    by (simp add: bit_iff_odd)
  then have "bit hi 8"
    by (simp add: bit_unsigned_iff)
  then show ?thesis
    by (simp add: bit_simps)
qed

lemma getPLLdiv_spills:
  assumes "511 \<le> unat d" "unat d \<le> 1022"
  shows "bit (getPLLdiv d) 16"
proof -
  define lo where "lo = d div 2"
  have lo: "unat lo = unat d div 2"
    by (simp add: lo_def unat_div)
  have hi: "unat (lo + 1) = unat lo + 1"
    using assms lo by (subst unat_add_lem [THEN iffD1]) simp_all
  have ev: "d AND 1 = 0 \<longleftrightarrow> even (unat d)"
    by (simp add: and_one_eq word_unat_eq_iff unat_mod even_iff_mod_2_eq_zero)
  show ?thesis
  proof (cases "even (unat d)")
    case True
    then have "unat lo \<ge> 256" "unat lo < 512"
      using assms lo by (auto elim!: evenE)
    with True show ?thesis
      using spill [of lo "0" lo] by (simp add: getPLLdiv_def ev lo_def)
  next
    case False
    then have "unat (lo + 1) \<ge> 256" "unat (lo + 1) < 512"
      using assms lo hi by (auto elim!: oddE)
    with False show ?thesis
      using spill [of "lo + 1" "0x20000" lo] by (simp add: getPLLdiv_def ev lo_def)
  qed
qed

text \<open>C22. A counter from 511 to 1022 does not survive the encoding: it sets the bypass bit of its register,
  so the generator does not divide at all.\<close>

theorem getPLLdiv_overflow:
  assumes "511 \<le> unat d" "unat d \<le> 1022"
  shows "bit (getPLLdiv d) 16"
  using assms by (rule getPLLdiv_spills)

theorem getPLLdiv_overflow_witness: "bit (getPLLdiv 1021) 16"
  using getPLLdiv_overflow [of 1021] by simp

subsection \<open>Transactions on the bridge\<close>

text \<open>The transactions of a sequence of bus writes: the data between an enable and the next disable.
  The first argument is the data of the transaction that is open.\<close>

fun transactions :: "u16 list option \<Rightarrow> bus list \<Rightarrow> u16 list list option" where
  "transactions None [] = Some []"
| "transactions (Some _) [] = None"
| "transactions None (Vio_en e # bs) = (if e = 0xffff then transactions (Some []) bs else None)"
| "transactions None (Vio_data _ # bs) = None"
| "transactions (Some ds) (Vio_data d # bs) = transactions (Some (ds @ [d])) bs"
| "transactions (Some ds) (Vio_en e # bs) =
     (if e = 0 then map_option ((#) ds) (transactions None bs) else None)"

definition low_half :: "u32 \<Rightarrow> u16" where "low_half v = ucast (v AND 0xffff)"
definition high_half :: "u32 \<Rightarrow> u16" where "high_half v = ucast (drop_bit 16 v)"

lemma halves: "word_cat (high_half v) (low_half v) = v"
proof -
  have m: "(0xffff :: u32) = mask 16"
    by (simp add: mask_eq_exp_minus_1)
  show ?thesis
    unfolding low_half_def high_half_def m
    by (rule bit_word_eqI) (auto simp: bit_word_cat_iff bit_simps)
qed

lemmas vio_defs = vio_enable_def vio_disable_def vio_w16_def vio_cmd_def vio_cmd_cont_def

definition pll_command :: "u16 \<times> u32 \<Rightarrow> u16 list" where
  "pll_command p = [VIO_SET_PLL, fst p, low_half (snd p), high_half (snd p)]"

lemma transactions_cmd: "transactions None (vio_cmd c d @ bs) = map_option ((#) [c, d]) (transactions None bs)"
  by (simp add: vio_defs)

lemma transactions_write_pll:
  "transactions None (vio_write_pll a v @ bs) = map_option ((#) (pll_command (a, v))) (transactions None bs)"
  by (simp add: vio_write_pll_def vio_defs pll_command_def low_half_def high_half_def)

text \<open>The register writes that load the parameters of the clock generator.\<close>

definition pll_sequence :: "u32 \<times> u32 \<times> u32 \<Rightarrow> (u16 \<times> u32) list" where
  "pll_sequence p =
     (case p of (c, m, k) \<Rightarrow>
        [(0, 0), (4, getPLLdiv m), (3, 0x10000), (5, getPLLdiv c), (9, 2), (8, 7), (7, k)])"

subsection \<open>The clock of the registers\<close>

text \<open>The register writes the other end of the bridge performs for a list of transactions: the low byte of
  the first word is the command, the address has six bits, and the low half of the value comes first.\<close>

definition register_writes :: "u16 list list \<Rightarrow> (u16 \<times> u32) list" where
  "register_writes ts = concat (map (\<lambda>t.
     (case t of
        [c, a, l, h] \<Rightarrow> if c AND 0xff = VIO_SET_PLL then [(a AND 0x3f, word_cat h l)] else []
      | _ \<Rightarrow> [])) ts)"

lemma register_writes_simps [simp]:
  "register_writes [] = []" "register_writes (ts @ us) = register_writes ts @ register_writes us"
  by (simp_all add: register_writes_def)

lemma register_writes_pll:
  "\<forall>(a, v) \<in> set ws. a AND 0x3f = a \<Longrightarrow> register_writes (map pll_command ws) = ws"
  by (induction ws) (auto simp: register_writes_def pll_command_def VIO_SET_PLL_def halves)

lemma register_writes_sequence: "register_writes (map pll_command (pll_sequence p)) = pll_sequence p"
  by (rule register_writes_pll) (cases p, simp add: pll_sequence_def)

text \<open>The counters and the clock of the generator after a list of register writes: registers 3, 4 and 5
  are the counters N, M and C, a counter in bypass counts one, and register 7 is the fraction of M. The
  reference is 50 MHz.\<close>

definition counter_value :: "u32 \<Rightarrow> nat" where
  "counter_value r = (if bit r 16 then 1 else div_count r)"

definition generator_clock :: "(u16 \<times> u32) list \<Rightarrow> rat option" where
  "generator_clock ws =
     do {
       n \<leftarrow> map_of (rev ws) 3;
       m \<leftarrow> map_of (rev ws) 4;
       c \<leftarrow> map_of (rev ws) 5;
       k \<leftarrow> map_of (rev ws) 7;
       Some (50 / of_nat (counter_value n) * (of_nat (counter_value m) + of_nat (unat k) / 2 ^ 32) /
         of_nat (counter_value c))
     }"

lemma counter_value_bypass: "counter_value 0x10000 = 1"
  by (simp add: counter_value_def)

lemma generator_clock_sequence:
  assumes "unat c \<le> 510" "unat m \<le> 510"
  shows "generator_clock (pll_sequence (c, m, k)) = Some (pll_frequency c m k)"
proof -
  have "counter_value (getPLLdiv c) = unat c" "counter_value (getPLLdiv m) = unat m"
    using assms by (simp_all add: counter_value_def getPLLdiv_register)
  then show ?thesis
    by (simp add: generator_clock_def pll_sequence_def counter_value_bypass pll_frequency_def)
qed

lemma pll_good_counters:
  assumes "pll_good F (1 / 100) (c, m, k)" "319 / 100 \<le> F" "F \<le> 20000"
  shows "unat c \<le> 510" "unat m \<le> 510"
proof -
  define C M where "C = rat_of_nat (unat c)" and "M = rat_of_nat (unat m)"
  have g: "F * C \<le> 1600 + F" "\<bar>pll_frequency c m k - F\<bar> \<le> 1 / 100 * F" "0 < C"
    using assms(1) unfolding pll_good_def C_def of_nat_0_less_iff by simp_all
  have "C < 511"
  proof (rule ccontr)
    assume "\<not> C < 511"
    then have "F * 511 \<le> F * C"
      using assms(2) by (intro mult_left_mono) auto
    then show False
      using g(1) assms(2) by linarith
  qed
  then have "rat_of_nat (unat c) < of_nat 511"
    by (simp add: C_def)
  then show "unat c \<le> 510"
    by (simp only: of_nat_less_iff)
  define K where "K = rat_of_nat (unat k) / 4294967296"
  have "0 \<le> K"
    unfolding K_def by (intro divide_nonneg_nonneg of_nat_0_le_iff) simp
  then have "50 * M / C \<le> pll_frequency c m k"
    unfolding pll_frequency_def C_def [symmetric] M_def [symmetric] K_def [symmetric]
    using g(3) by (intro divide_right_mono) simp_all
  also have "\<dots> \<le> 101 / 100 * F"
    using g(2) unfolding abs_le_iff by linarith
  finally have "50 * M \<le> 101 / 100 * (F * C)"
    using g(3) by (simp add: pos_divide_le_eq)
  then have "rat_of_nat (unat m) < of_nat 511"
    using g(1) assms(3) by (simp add: M_def)
  then show "unat m \<le> 510"
    by (simp only: of_nat_less_iff)
qed

lemma good_generator_clock:
  assumes "pll_good F (1 / 100) (c, m, k)" "319 / 100 \<le> F" "F \<le> 20000"
  shows "generator_clock (pll_sequence (c, m, k)) = Some (pll_frequency c m k)"
  using pll_good_counters [OF assms] by (rule generator_clock_sequence)

lemma transactions_setPLL:
  assumes "pll_params (double_product F) F = Some p"
  obtains w where "setPLL F = Some w"
    "\<And>bs. transactions None (w @ bs) =
      map_option ((@) (map pll_command (pll_sequence p))) (transactions None bs)"
proof -
  obtain c m k where p: "p = (c, m, k)"
    by (cases p)
  show ?thesis
  proof (rule that)
    show "setPLL F = Some (vio_write_pll 0 0 @ vio_write_pll 4 (getPLLdiv m) @ vio_write_pll 3 0x10000 @
       vio_write_pll 5 (getPLLdiv c) @ vio_write_pll 9 2 @ vio_write_pll 8 7 @ vio_write_pll 7 k)"
      using assms by (simp add: setPLL_def p)
    show "transactions None ((vio_write_pll 0 0 @ vio_write_pll 4 (getPLLdiv m) @ vio_write_pll 3 0x10000 @
       vio_write_pll 5 (getPLLdiv c) @ vio_write_pll 9 2 @ vio_write_pll 8 7 @ vio_write_pll 7 k) @ bs) =
      map_option ((@) (map pll_command (pll_sequence p))) (transactions None bs)" for bs
      by (cases "transactions None bs") (simp_all add: transactions_write_pll pll_sequence_def p)
  qed
qed

subsection \<open>Setting a mode\<close>

text \<open>The pixels of a frame, blanking included, and the pixel clock in MHz they need.\<close>

definition frame_pixels :: "int list \<Rightarrow> int" where
  "frame_pixels t = sum_list (take 4 t) * sum_list (drop 4 t)"

definition pixel_clock :: "int list \<Rightarrow> rat \<Rightarrow> rat" where
  "pixel_clock t hz = of_int (frame_pixels t) * hz / 1000000"

lemma video_mode_pixels_exact:
  assumes "valid_timing w h (mode_timing m)" "160 \<le> w" "w \<le> 4096" "1 \<le> h" "h \<le> 4096"
  obtains n where "video_mode_pixels m = Some n" "int (unat n) = frame_pixels (mode_timing m)"
    "2240 \<le> frame_pixels (mode_timing m)" "frame_pixels (mode_timing m) \<le> 80000000"
proof -
  define a where "a = uint (hact m) + uint (hfp m) + uint (hs m) + uint (hbp m)"
  define b where "b = uint (vact m) + uint (vfp m) + uint (vs m) + uint (vbp m)"
  have t: "frame_pixels (mode_timing m) = a * b"
    by (simp add: frame_pixels_def mode_timing_def a_def b_def algebra_simps)
  have ab: "160 \<le> a" "a \<le> 8192" "14 \<le> b" "b \<le> 9608"
    using assms pos_mod_bound [of 4 w] pos_mod_sign [of 4 w]
    by (auto simp: valid_timing_def mode_timing_def a_def b_def)
  then have "160 * 14 \<le> a * b" "a * b \<le> 8192 * 9608"
    using mult_mono [of 160 a 14 b] mult_mono [of a 8192 b 9608] by simp_all
  then have px: "2240 \<le> a * b" "a * b \<le> 80000000"
    by simp_all
  then have "i32 (a * b) = Some (a * b)"
    by (intro i32_id; linarith)
  then have "video_mode_pixels m = Some (of_int (a * b))"
    by (simp add: video_mode_pixels_def a_def b_def add.commute add.left_commute)
  moreover have "int (unat (of_int (a * b) :: u32)) = a * b"
    using px by (simp only: uint_nat [symmetric] unsigned_of_int) (simp add: take_bit_int_eq_self)
  ultimately show ?thesis
    using that px t by simp
qed

lemma requested_clock:
  assumes "0 \<le> P" "P \<le> 80000000" "0 \<le> hz" "hz \<le> 1000"
  shows "\<bar>to_double (to_float (to_float P * hz) / 1000000) - P * hz / 1000000\<bar> \<le> 4 / 16777216 * (P * hz / 1000000)"
proof -
  define a where "a = to_float P"
  have a: "\<bar>a - P\<bar> \<le> P / 16777216" "0 \<le> a"
    unfolding a_def by (rule single.rnd_error single.rnd_nonneg; use assms in simp)+
  define x where "x = P * hz"
  have "\<bar>a - P\<bar> * hz \<le> P / 16777216 * hz"
    using a assms by (intro mult_right_mono)
  moreover have "\<bar>a * hz - x\<bar> = \<bar>a - P\<bar> * hz"
    using assms by (simp add: x_def abs_mult flip: left_diff_distrib)
  ultimately have y: "\<bar>a * hz - x\<bar> \<le> x / 16777216" "0 \<le> a * hz" "0 \<le> x"
    using a(2) assms by (simp_all add: x_def)
  define b where "b = to_float (a * hz)"
  have b: "\<bar>b - a * hz\<bar> \<le> a * hz / 16777216" "0 \<le> b"
    unfolding b_def by (rule single.rnd_error single.rnd_nonneg; use y in simp)+
  have "\<bar>to_double (b / 1000000) - b / 1000000\<bar> \<le> b / 1000000 / 16777216"
    using b by (intro double.rnd_error) simp
  then show ?thesis
    unfolding a_def [symmetric] b_def [symmetric] x_def [symmetric]
    using b y unfolding abs_le_iff by linarith
qed

lemma pixel_clock_ge:
  assumes "valid_timing w h t" "0 \<le> w" "0 \<le> h" "0 \<le> hz"
  shows "of_int (w * h) * hz / 1000000 \<le> pixel_clock t hz"
proof -
  have "w \<le> sum_list (take 4 t)" "h \<le> sum_list (drop 4 t)"
    using assms(1) pos_mod_bound [of 4 w] zmod_le_nonneg_dividend [of _ 4]
    by (auto simp: valid_timing_def split: list.splits)
  then have "w * h \<le> frame_pixels t"
    using assms(2,3) by (simp add: frame_pixels_def mult_mono)
  then have "of_int (w * h) * hz \<le> of_int (frame_pixels t) * hz"
    using assms(4) by (intro mult_right_mono) (simp_all only: of_int_le_iff)
  then show ?thesis
    by (simp add: pixel_clock_def)
qed

lemma transactions_mode:
  "transactions None (vio_cmd_cont VIO_SET_MODE @ vio_w16 a1 @ vio_w16 a2 @ vio_w16 a3 @ vio_w16 a4 @
     vio_w16 a5 @ vio_w16 a6 @ vio_w16 a7 @ vio_w16 a8 @ vio_w16 1 @ vio_disable @ bs) =
   map_option ((#) [VIO_SET_MODE, a1, a2, a3, a4, a5, a6, a7, a8, 1]) (transactions None bs)"
  by (simp add: vio_defs)

lemma transactions_nil: "transactions None (vio_cmd c d) = Some [[c, d]]"
  using transactions_cmd [of c d "[]"] by simp

lemma sent_registers:
  assumes "valid_timing w h (map uint (t :: u16 list))"
  shows "register_writes ([[VIO_SET_OVERRIDE, 1], [VIO_SET_CFG, 0], VIO_SET_MODE # t @ [1]] @
    map pll_command (pll_sequence p) @ [[VIO_SET_CFG, 1]]) = pll_sequence p"
proof -
  have "length t = 8"
    using assms by (auto simp: valid_timing_def split: list.splits)
  then have "register_writes [[VIO_SET_OVERRIDE, 1], [VIO_SET_CFG, 0], VIO_SET_MODE # t @ [1]] = []"
    by (auto simp: register_writes_def VIO_SET_MODE_def VIO_SET_PLL_def split: list.splits)
  moreover have "register_writes [[VIO_SET_CFG, 1]] = []"
    by (simp add: register_writes_def)
  ultimately show ?thesis
    by (simp only: register_writes_simps register_writes_sequence) simp
qed

lemma hdmi_set_mode_effect:
  assumes w: "160 \<le> uint w" "uint w \<le> 4096" and h: "1 \<le> uint h" "uint h \<le> 4096"
    and hz: "1 \<le> hz" "hz \<le> 1000"
  shows "\<exists>t c m k bs.
    valid_timing (uint w) (uint h) (map uint t) \<and>
    hdmi_set_mode w h hz = Some bs \<and>
    transactions None bs =
      Some ([[VIO_SET_OVERRIDE, 1], [VIO_SET_CFG, 0], VIO_SET_MODE # t @ [1]] @
        map pll_command (pll_sequence (c, m, k)) @ [[VIO_SET_CFG, 1]]) \<and>
    \<bar>pll_frequency c m k - pixel_clock (map uint t) hz\<bar> \<le> 11 / 1000 * pixel_clock (map uint t) hz \<and>
    (3200000 \<le> of_int (uint w * uint h) * hz \<and> hz \<le> 240 \<longrightarrow>
       generator_clock (pll_sequence (c, m, k)) = Some (pll_frequency c m k))"
proof -
  obtain mode where mode: "hdmi_find_mode w h hz = Some mode"
    and valid: "valid_timing (uint w) (uint h) (mode_timing mode)"
    using find_mode_valid [OF assms] by blast
  define t where "t = [hact mode, hfp mode, hs mode, hbp mode, vact mode, vfp mode, vs mode, vbp mode]"
  have mt: "mode_timing mode = map uint t"
    by (simp add: mode_timing_def t_def)
  define P where "P = frame_pixels (map uint t)"
  obtain n where n: "video_mode_pixels mode = Some n" "int (unat n) = P"
    and P: "2240 \<le> P" "P \<le> 80000000"
    using video_mode_pixels_exact [OF valid w h] unfolding mt P_def .
  then have pixels: "rat_of_nat (unat n) = of_int P"
    by (metis of_int_of_nat_eq)
  define C where "C = pixel_clock (map uint t) hz"
  define F where "F = to_double (to_float (to_float (of_int P) * hz) / 1000000)"
  have Pr: "2240 \<le> (of_int P :: rat)" "of_int P \<le> (80000000 :: rat)"
    using P by simp_all
  have FC: "\<bar>F - C\<bar> \<le> 4 / 16777216 * C"
    unfolding F_def C_def pixel_clock_def P_def [symmetric] using Pr hz by (intro requested_clock) auto
  have "2240 * 1 \<le> of_int P * hz" "of_int P * hz \<le> 80000000 * 1000"
    using Pr hz by (intro mult_mono; simp)+
  then have C: "2240 / 1000000 \<le> C" "C \<le> 80000"
    unfolding C_def pixel_clock_def P_def [symmetric] by simp_all
  then have F: "1 / 1000 \<le> F" "F \<le> 100000"
    using FC unfolding abs_le_iff by linarith+
  then obtain c m k where p: "pll_params (double_product F) F = Some (c, m, k)" "pll_good F (1 / 100) (c, m, k)"
    using hdmi_clock.params_return by blast
  obtain pw where pw: "setPLL F = Some pw"
    "\<And>bs. transactions None (pw @ bs) =
      map_option ((@) (map pll_command (pll_sequence (c, m, k)))) (transactions None bs)"
    using transactions_setPLL [OF p(1)] by blast
  define bs where "bs = vio_cmd VIO_SET_OVERRIDE 1 @ vio_cmd VIO_SET_CFG 0 @ vio_cmd_cont VIO_SET_MODE @
         vio_w16 (hact mode) @ vio_w16 (hfp mode) @ vio_w16 (hs mode) @ vio_w16 (hbp mode) @
         vio_w16 (vact mode) @ vio_w16 (vfp mode) @ vio_w16 (vs mode) @ vio_w16 (vbp mode) @
         vio_w16 1 @ vio_disable @ pw @ vio_cmd VIO_SET_CFG 1"
  have "hdmi_set_mode w h hz = Some bs"
    by (simp only: hdmi_set_mode_def mode n(1) pixels F_def [symmetric] pw(1) Let_def bs_def bind.bind_lunit)
  moreover have "transactions None bs =
      Some ([[VIO_SET_OVERRIDE, 1], [VIO_SET_CFG, 0], VIO_SET_MODE # t @ [1]] @
        map pll_command (pll_sequence (c, m, k)) @ [[VIO_SET_CFG, 1]])"
    by (simp add: bs_def transactions_cmd transactions_mode pw(2) transactions_nil t_def)
  moreover have "\<bar>pll_frequency c m k - C\<bar> \<le> 11 / 1000 * C"
  proof -
    have "\<bar>pll_frequency c m k - F\<bar> \<le> 1 / 100 * F"
      using p(2) by (simp add: pll_good_def)
    then show ?thesis
      using FC C unfolding abs_le_iff by linarith
  qed
  moreover have "generator_clock (pll_sequence (c, m, k)) = Some (pll_frequency c m k)"
    if "3200000 \<le> of_int (uint w * uint h) * hz" "hz \<le> 240"
  proof (rule good_generator_clock [OF p(2)])
    have "of_int (uint w * uint h) * hz / 1000000 \<le> C"
      unfolding C_def mt [symmetric] using w h hz by (intro pixel_clock_ge valid) simp_all
    moreover have "of_int P * hz \<le> 80000000 * 240"
      using Pr hz that(2) by (intro mult_mono) simp_all
    then have "C \<le> 19200"
      unfolding C_def pixel_clock_def P_def [symmetric] by simp
    ultimately show "319 / 100 \<le> F" "F \<le> 20000"
      using that(1) FC unfolding abs_le_iff by linarith+
  qed
  ultimately show ?thesis
    using valid unfolding mt C_def by blast
qed

text \<open>C17. Setting an HDMI mode always ends, for every width from 160 to 4096, height from 1 to 4096 and
  refresh rate from 1 to 1000 Hz, and the writes form complete transactions: the override is switched
  on, the configuration is opened, a valid timing for that size is sent with the low latency flag, the
  seven generator registers are loaded, and the configuration is closed. Up to 240 Hz and from 3.2
  million active pixels a second on, which all modes of the menu have, the counters fit their registers,
  and the clock read back from the sent registers is the pixel clock that the sent timing needs at that
  refresh rate, to 1.1 percent.\<close>

theorem hdmi_set_mode_correct:
  assumes w: "160 \<le> uint w" "uint w \<le> 4096" and h: "1 \<le> uint h" "uint h \<le> 4096"
    and hz: "1 \<le> hz" "hz \<le> 1000"
  shows "\<exists>t c m k bs ts.
    valid_timing (uint w) (uint h) (map uint t) \<and>
    hdmi_set_mode w h hz = Some bs \<and> transactions None bs = Some ts \<and>
    ts = [[VIO_SET_OVERRIDE, 1], [VIO_SET_CFG, 0], VIO_SET_MODE # t @ [1]] @
        map pll_command (pll_sequence (c, m, k)) @ [[VIO_SET_CFG, 1]] \<and>
    (3200000 \<le> of_int (uint w * uint h) * hz \<and> hz \<le> 240 \<longrightarrow>
      (\<exists>F. generator_clock (register_writes ts) = Some F \<and>
        \<bar>F - pixel_clock (map uint t) hz\<bar> \<le> 11 / 1000 * pixel_clock (map uint t) hz))"
proof -
  obtain t c m k bs where e: "valid_timing (uint w) (uint h) (map uint t)" "hdmi_set_mode w h hz = Some bs"
    "transactions None bs =
      Some ([[VIO_SET_OVERRIDE, 1], [VIO_SET_CFG, 0], VIO_SET_MODE # t @ [1]] @
        map pll_command (pll_sequence (c, m, k)) @ [[VIO_SET_CFG, 1]])"
    "\<bar>pll_frequency c m k - pixel_clock (map uint t) hz\<bar> \<le> 11 / 1000 * pixel_clock (map uint t) hz"
    "3200000 \<le> of_int (uint w * uint h) * hz \<and> hz \<le> 240 \<longrightarrow>
       generator_clock (pll_sequence (c, m, k)) = Some (pll_frequency c m k)"
    using hdmi_set_mode_effect [OF assms] by blast
  then show ?thesis
    using sent_registers [OF e(1), of "(c, m, k)"]
    by (intro exI [of _ t] exI [of _ c] exI [of _ m] exI [of _ k] exI [of _ bs] exI) auto
qed

theorem hdmi_set_mode_correct_witness:
  "\<exists>t bs ts F.
    valid_timing 1920 1080 (map uint (t :: u16 list)) \<and>
    hdmi_set_mode 1920 1080 60 = Some bs \<and> transactions None bs = Some ts \<and>
    generator_clock (register_writes ts) = Some F \<and>
    \<bar>F - pixel_clock (map uint t) 60\<bar> \<le> 11 / 1000 * pixel_clock (map uint t) 60"
  using hdmi_set_mode_correct [of 1920 1080 60] by auto

subsection \<open>The local clock generator\<close>

definition idle_polls :: "u16 list \<Rightarrow> nat" where
  "idle_polls l = length (filter (\<lambda>v. v = 0) l)"

lemma wait_pll_idle:
  "(idle_polls l = 0 \<longrightarrow> wait_pll l = None) \<and>
   (0 < idle_polls l \<longrightarrow> (\<exists>l'. wait_pll l = Some l' \<and> idle_polls l = Suc (idle_polls l')))"
  by (induction l rule: wait_pll.induct) (auto simp: idle_polls_def)

fun write_all :: "(u16 \<times> u32) list \<Rightarrow> CRTC \<Rightarrow> CRTC option" where
  "write_all [] r = Some r"
| "write_all ((a, v) # ws) r = crtc_write_pll a v r \<bind> write_all ws"

lemma write_all_idle:
  "(if length ws \<le> idle_polls (pll_io r)
    then \<exists>polls. write_all ws r = Some (r\<lparr>pll_io := polls, pll_writes := pll_writes r @ ws\<rparr>)
    else write_all ws r = None)"
proof (induction ws arbitrary: r)
  case Nil
  then show ?case
    by (auto intro!: exI [of _ "pll_io r"])
next
  case (Cons w ws)
  obtain a v where w: "w = (a, v)"
    by (cases w)
  show ?case
  proof (cases "idle_polls (pll_io r) = 0")
    case True
    then show ?thesis
      using wait_pll_idle [of "pll_io r"] by (simp add: w crtc_write_pll_def)
  next
    case False
    then obtain l where "wait_pll (pll_io r) = Some l" "idle_polls (pll_io r) = Suc (idle_polls l)"
      using wait_pll_idle [of "pll_io r"] by auto
    then show ?thesis
      using Cons [of "r\<lparr>pll_io := l, pll_writes := pll_writes r @ [(a, v)]\<rparr>"]
      by (auto simp: w crtc_write_pll_def split: if_splits)
  qed
qed

lemma crt_set_mode_writes:
  "crt_set_mode mode wide r =
     (let f = to_float (mhz mode * 4) in
      pll_params (float_product f) f \<bind> (\<lambda>p.
      map_option (\<lambda>r. r\<lparr>ce_numer := 1, ce_denom := 4,
         timing := [hact mode, hfp mode, hs mode, hbp mode, vact mode, vfp mode, vs mode, vbp mode],
         arx := (if wide then 16 else 4), ary := (if wide then 9 else 3)\<rparr>)
       (write_all (pll_sequence p @ [(2, 0)]) r)))"
  unfolding crt_set_mode_def Let_def
  by (rule arg_cong2 [where f = Option.bind])
    (auto simp: pll_sequence_def map_option_case fun_eq_iff split: option.splits Option.bind_splits)

lemma crt_set_mode_effect:
  assumes "1 / 1000 \<le> mhz mode" "mhz mode \<le> 20000"
  shows "\<exists>c m k. pll_good (to_float (mhz mode * 4)) (1 / 100) (c, m, k) \<and>
    \<bar>pll_frequency c m k / 4 - mhz mode\<bar> \<le> 11 / 1000 * mhz mode \<and>
    (4 / 5 \<le> mhz mode \<and> mhz mode \<le> 4000 \<longrightarrow>
       generator_clock (pll_sequence (c, m, k)) = Some (pll_frequency c m k)) \<and>
    (if 8 \<le> idle_polls (pll_io r)
     then \<exists>polls. crt_set_mode mode wide r =
       Some \<lparr>ce_numer = 1, ce_denom = 4,
         timing = [hact mode, hfp mode, hs mode, hbp mode, vact mode, vfp mode, vs mode, vbp mode],
         arx = (if wide then 16 else 4), ary = (if wide then 9 else 3),
         pll_writes = pll_writes r @ pll_sequence (c, m, k) @ [(2, 0)], pll_io = polls\<rparr>
     else crt_set_mode mode wide r = None)"
proof -
  define F where "F = to_float (mhz mode * 4)"
  have FC: "\<bar>F - mhz mode * 4\<bar> \<le> mhz mode * 4 / 16777216"
    unfolding F_def using assms by (intro single.rnd_error) simp
  then have "1 / 1000 \<le> F" "F \<le> 100000"
    using assms unfolding abs_le_iff by linarith+
  then obtain c m k where p: "pll_params (float_product F) F = Some (c, m, k)" "pll_good F (1 / 100) (c, m, k)"
    using crt_clock.params_return by blast
  have "\<bar>pll_frequency c m k - F\<bar> \<le> 1 / 100 * F"
    using p(2) by (simp add: pll_good_def)
  then have "\<bar>pll_frequency c m k / 4 - mhz mode\<bar> \<le> 11 / 1000 * mhz mode"
    using FC assms unfolding abs_le_iff by linarith
  moreover have "generator_clock (pll_sequence (c, m, k)) = Some (pll_frequency c m k)"
    if "4 / 5 \<le> mhz mode" "mhz mode \<le> 4000"
    by (rule good_generator_clock [OF p(2)]) (use FC that in \<open>unfold abs_le_iff, linarith+\<close>)
  moreover define ws where "ws = pll_sequence (c, m, k) @ [(2, 0)]"
  have len: "length ws = 8"
    by (simp add: ws_def pll_sequence_def)
  have "crt_set_mode mode wide r =
      map_option (\<lambda>r. r\<lparr>ce_numer := 1, ce_denom := 4,
         timing := [hact mode, hfp mode, hs mode, hbp mode, vact mode, vfp mode, vs mode, vbp mode],
         arx := (if wide then 16 else 4), ary := (if wide then 9 else 3)\<rparr>) (write_all ws r)"
    by (simp only: crt_set_mode_writes Let_def F_def [symmetric] p(1) bind.bind_lunit ws_def)
  then have "if 8 \<le> idle_polls (pll_io r)
     then \<exists>polls. crt_set_mode mode wide r =
       Some \<lparr>ce_numer = 1, ce_denom = 4,
         timing = [hact mode, hfp mode, hs mode, hbp mode, vact mode, vfp mode, vs mode, vbp mode],
         arx = (if wide then 16 else 4), ary = (if wide then 9 else 3),
         pll_writes = pll_writes r @ ws, pll_io = polls\<rparr>
     else crt_set_mode mode wide r = None"
    using write_all_idle [of ws r] len by (cases r) (auto split: if_splits)
  ultimately show ?thesis
    using p(2) unfolding F_def ws_def by blast
qed

text \<open>C20. crt_set_mode writes, for a pixel clock from 1 kHz to 20 GHz, the seven generator registers and
  the reconfigure command in this order, and then the divider, the eight timing registers and the
  aspect ratio. The parameters are those of four times the pixel clock, to 1.1 percent, and from 0.8 MHz
  to 4 GHz the registers, read back, produce that clock. Each of the eight
  writes first waits until the generator is idle: the function returns if the busy register shows
  idle eight times, and otherwise never returns.\<close>

theorem crt_set_mode_correct:
  assumes "1 / 1000 \<le> mhz mode" "mhz mode \<le> 20000"
  shows "\<exists>c m k. pll_good (to_float (mhz mode * 4)) (1 / 100) (c, m, k) \<and>
    \<bar>pll_frequency c m k / 4 - mhz mode\<bar> \<le> 11 / 1000 * mhz mode \<and>
    (4 / 5 \<le> mhz mode \<and> mhz mode \<le> 4000 \<longrightarrow>
       generator_clock (pll_sequence (c, m, k)) = Some (pll_frequency c m k)) \<and>
    (if 8 \<le> idle_polls (pll_io r)
     then \<exists>polls. crt_set_mode mode wide r =
       Some \<lparr>ce_numer = 1, ce_denom = 4,
         timing = [hact mode, hfp mode, hs mode, hbp mode, vact mode, vfp mode, vs mode, vbp mode],
         arx = (if wide then 16 else 4), ary = (if wide then 9 else 3),
         pll_writes = pll_writes r @ pll_sequence (c, m, k) @ [(2, 0)], pll_io = polls\<rparr>
     else crt_set_mode mode wide r = None)"
  using assms by (rule crt_set_mode_effect)

theorem crt_set_mode_correct_witness:
  "\<exists>c m k polls. crt_set_mode
      \<lparr>hact = 640, hfp = 16, hs = 64, hbp = 80, vact = 480, vfp = 2, vs = 4, vbp = 14, mhz = 24\<rparr> False
      \<lparr>ce_numer = 0, ce_denom = 0, timing = [], arx = 0, ary = 0, pll_writes = [],
       pll_io = replicate 8 0\<rparr> =
     Some \<lparr>ce_numer = 1, ce_denom = 4, timing = [640, 16, 64, 80, 480, 2, 4, 14], arx = 4, ary = 3,
       pll_writes = pll_sequence (c, m, k) @ [(2, 0)], pll_io = polls\<rparr>"
proof -
  have "idle_polls (replicate 8 0) = 8"
    by (simp add: idle_polls_def)
  then show ?thesis
    using crt_set_mode_correct
      [of "\<lparr>hact = 640, hfp = 16, hs = 64, hbp = 80, vact = 480, vfp = 2, vs = 4, vbp = 14, mhz = 24\<rparr>"
        "\<lparr>ce_numer = 0, ce_denom = 0, timing = [], arx = 0, ary = 0, pll_writes = [],
          pll_io = replicate 8 0\<rparr>" False]
    by auto
qed

end
