(* ===== verification/Display.thy ===== *)
theory Display
  imports Gfx_Draw Hdmi_Set
begin

text \<open>
  The screen of the core (gfx_set_240p in gfx.c): it programs the local video timing and lays out the
  two pages of tile memory that gfx_pageflip alternates between. What the screen shows is read off the
  registers the way the hardware does.
\<close>

unbundle bit_operations_syntax

subsection \<open>Setting the 240p mode\<close>

text \<open>The timing of the two modes; the pixel clock is set from the refresh rate.\<close>

definition mode_240p :: "bool \<Rightarrow> rat \<Rightarrow> VideoMode" where
  "mode_240p wide f =
     (if wide
      then \<lparr>hact = 384, hfp = 16, hs = 32, hbp = 48, vact = 216, vfp = 3, vs = 5, vbp = 6, mhz = f\<rparr>
      else \<lparr>hact = 320, hfp = 8, hs = 32, hbp = 40, vact = 240, vfp = 3, vs = 4, vbp = 6, mhz = f\<rparr>)"

definition gfx_set_240p :: "rat \<Rightarrow> bool \<Rightarrow> 'a gfx_scheme \<times> CRTC \<Rightarrow> ('a gfx_scheme \<times> CRTC) option" where
  "gfx_set_240p hz wide p =
     (case p of (s, crtc) \<Rightarrow> do {
        let (w, h) = (if wide then (48, 27) else (40, 30));
        let s = s\<lparr>contexts := (contexts s)[0 := (contexts s ! 0)\<lparr>rx := 0, ry := 0, rw := w, rh := h\<rparr>]\<rparr>;
        pixels \<leftarrow> video_mode_pixels (mode_240p wide 0);
        let mode = mode_240p wide (to_float (to_double (to_float (hz * to_float (of_nat (unat pixels))) / 1000000)));
        crtc \<leftarrow> crt_set_mode mode wide crtc;
        let ho = of_int (- (uint (hs mode) + uint (hfp mode) - 9));
        let s = s\<lparr>page_tile_ctrl := [\<lparr>hofs = ho, vofs = of_int (- uint (vbp mode))\<rparr>,
                                   \<lparr>hofs = ho, vofs = of_int (64 * 8 - uint (vbp mode))\<rparr>],
                  page_vram := [0, TILE_MAX_W * 64]\<rparr>;
        s \<leftarrow> gfx_pageflip s;
        Some (s, crtc)
      })"

definition timing_240p :: "bool \<Rightarrow> u16 list" where
  "timing_240p wide = (if wide then [384, 16, 32, 48, 216, 3, 5, 6] else [320, 8, 32, 40, 240, 3, 4, 6])"

text \<open>The pages as gfx_set_240p lays them out, and the flip between them.\<close>

definition pages_ok :: "'a gfx_scheme \<Rightarrow> bool" where
  "pages_ok s \<longleftrightarrow> length (contexts s) = 8 \<and> ctx s < 8 \<and> page_vram s = [0, 8192] \<and>
     length (page_tile_ctrl s) = 2 \<and> (page_front s = 0 \<or> page_front s = 1)"

lemma gfx_pageflip_eq:
  assumes "pages_ok s"
  defines "b \<equiv> page_front s"
  shows "gfx_pageflip s = Some (s\<lparr>page_front := 1 - b, tile_ctrl := page_tile_ctrl s ! unat (1 - b),
    vram := page_vram s ! unat b, context_idx := 1, contexts := (contexts s)[1 := cur s], ctx := 1\<rparr>)"
  using assms by (auto simp: gfx_pageflip_def pages_ok_def gfx_push_def NUM_CTX_def Let_def cur_def)

lemma gfx_pageflip_wf:
  assumes "pages_ok s" "gfx_pageflip s = Some s'"
  shows "gfx_wf s'" "pages_ok s'" "cur s' = cur s" "contexts s' ! 0 = contexts s ! 0" "context_idx s' = 1"
    "vram s' = (if page_front s = 0 then 0 else 8192)" "page_front s' = 1 - page_front s" "tiles s' = tiles s"
  using assms unfolding gfx_pageflip_eq [OF assms(1)]
  by (auto simp: gfx_wf_def pages_ok_def page_ok_def cur_def)

subsection \<open>What the screen shows\<close>

text \<open>The address of the tile that the tile map fetches for a pixel (rtl/tilemap.sv): the counters of the
  video timing are shifted by the offsets in twelve bits, and a tile has eight by eight pixels.\<close>

definition tile_address :: "TilemapCtrl \<Rightarrow> 12 word \<Rightarrow> 12 word \<Rightarrow> int" where
  "tile_address c hcnt vcnt =
     (let H = hcnt + ucast (hofs c);
          V = vcnt + ucast (vofs c)
      in uint (drop_bit 3 (take_bit 10 V)) * 128 + uint (drop_bit 3 (take_bit 10 H)))"

text \<open>The lines of the vertical blank (rtl/crtc.sv), from the registers for the active lines and the back
  porch.\<close>

definition in_vblank :: "CRTC \<Rightarrow> 12 word \<Rightarrow> bool" where
  "in_vblank r vcnt =
     (let vact = ucast (timing r ! 4);
          vbp = ucast (timing r ! 7);
          vb_start = vact + vbp
      in vb_start \<le> vcnt \<or> vcnt < vbp)"

text \<open>The tiles that a line outside the vertical blank fetches, in any column: the tiles on screen.\<close>

definition shown :: "'a gfx_scheme \<Rightarrow> CRTC \<Rightarrow> int \<Rightarrow> bool" where
  "shown s r a \<longleftrightarrow> (\<exists>hcnt vcnt. \<not> in_vblank r vcnt \<and> a = tile_address (tile_ctrl s) hcnt vcnt)"

lemma tile_address_row:
  fixes c :: TilemapCtrl and h v :: "12 word"
  defines "q \<equiv> uint (v + ucast (vofs c)) mod 1024 div 8"
  shows "128 * q \<le> tile_address c h v" "tile_address c h v < 128 * q + 128"
proof -
  have u: "uint (drop_bit 3 (take_bit 10 x)) = uint x mod 1024 div 8" for x :: "12 word"
    by (simp add: unsigned_drop_bit_eq unsigned_take_bit_eq take_bit_eq_mod drop_bit_eq_div uint_div uint_mod)
  obtain p where p: "p = uint (h + ucast (hofs c)) mod 1024 div 8"
    by blast
  have "0 \<le> p" "p < 128"
    unfolding p by (simp_all add: pos_imp_zdiv_nonneg_iff div_less_iff_less_mult)
  moreover have "tile_address c h v = q * 128 + p"
    unfolding tile_address_def Let_def u p q_def ..
  ultimately show "128 * q \<le> tile_address c h v" "tile_address c h v < 128 * q + 128"
    by linarith+
qed

lemma uint_shift:
  fixes v :: "12 word"
  assumes "6 \<le> uint v" "uint v < 246"
  shows "uint (v + ucast (- 6 :: u16)) = uint v - 6" "uint (v + ucast (506 :: u16)) = uint v + 506"
proof -
  have "(n + 4090) mod 4096 = n - 6" if "6 \<le> n" "n < 246" for n :: int
    using that mod_add_self2 [of "n - 6" 4096] by (simp add: mod_pos_pos_trivial add.commute)
  from this [of "uint v"] have "(uint v + 4090) mod 4096 = uint v - 6"
    using assms by blast
  then show "uint (v + ucast (- 6 :: u16)) = uint v - 6" "uint (v + ucast (506 :: u16)) = uint v + 506"
    using assms by (simp_all add: uint_word_ariths mod_pos_pos_trivial)
qed

lemma shown_page:
  assumes "timing r = timing_240p wide" "vofs (tile_ctrl s) = (if b then 506 else - 6)" "shown s r a"
  shows "(if b then 8192 else 0) \<le> a \<and> a < (if b then 8192 else 0) + 3840"
proof -
  obtain h v where v: "\<not> in_vblank r v" and a: "a = tile_address (tile_ctrl s) h v"
    using assms(3) by (auto simp: shown_def)
  define n where "n = uint v"
  have n: "6 \<le> n" "n < 246"
    using v assms(1)
    by (simp_all add: in_vblank_def timing_240p_def n_def word_le_def word_less_def not_le not_less Let_def
        split: if_splits)
  define q where "q = uint (v + ucast (vofs (tile_ctrl s))) mod 1024 div 8"
  have "uint (v + ucast (vofs (tile_ctrl s))) = (if b then n + 506 else n - 6)"
    using uint_shift [of v] n assms(2) by (simp add: n_def)
  then have "if b then 64 \<le> q \<and> q < 94 else 0 \<le> q \<and> q < 30"
    using n by (auto simp: q_def)
  moreover have "128 * q \<le> a" "a < 128 * q + 128"
    unfolding a q_def by (rule tile_address_row)+
  ultimately show ?thesis
    by (cases b) simp_all
qed

lemma tile_address_first:
  assumes "vofs c = (if b then 506 else - 6)"
  shows "tile_address c h 6 div 128 = (if b then 64 else 0)"
proof -
  define q :: int where "q = (if b then 64 else 0)"
  have "uint (6 + ucast (vofs c) :: 12 word) mod 1024 div 8 = q"
    using assms by (simp add: q_def)
  then have "128 * q \<le> tile_address c h 6" "tile_address c h 6 < 128 * q + 128"
    using tile_address_row [where c = c and h = h and v = 6] by simp_all
  then have "tile_address c h 6 div 128 = q"
    by (intro int_div_pos_eq [where r = "tile_address c h 6 - 128 * q"]) simp_all
  then show ?thesis
    by (simp only: q_def)
qed

text \<open>The registers of the pages as gfx_set_240p sets them: the offsets select the front page, and the
  drawing goes to the other one.\<close>

definition page_regs :: "'a gfx_scheme \<Rightarrow> bool" where
  "page_regs s \<longleftrightarrow> map vofs (page_tile_ctrl s) = [- 6, 506] \<and> tile_ctrl s = page_tile_ctrl s ! unat (page_front s) \<and>
     vram s = (if page_front s = 0 then 8192 else 0)"

lemma gfx_pageflip_regs:
  assumes "pages_ok s" "map vofs (page_tile_ctrl s) = [- 6, 506]" "gfx_pageflip s = Some s'"
  shows "page_regs s'"
  using assms gfx_pageflip_eq [OF assms(1)] by (auto simp: page_regs_def pages_ok_def)

lemma page_regs_shown:
  assumes "pages_ok s" "page_regs s" "timing r = timing_240p wide" "shown s r a"
  shows "(if page_front s = 0 then 0 else 8192) \<le> a \<and> a < (if page_front s = 0 then 0 else 8192) + 3840"
proof -
  have "vofs (tile_ctrl s) = map vofs (page_tile_ctrl s) ! unat (page_front s)"
    using assms(1,2) by (auto simp: page_regs_def pages_ok_def)
  then have "vofs (tile_ctrl s) = (if page_front s = 1 then 506 else - 6)"
    using assms(1,2) by (auto simp: page_regs_def pages_ok_def)
  from shown_page [OF assms(3) this assms(4)] show ?thesis
    using assms(1) by (auto simp: pages_ok_def)
qed

lemma shown_not_drawn:
  assumes "pages_ok s" "page_regs s" "timing r = timing_240p wide" "shown s r a"
  shows "\<not> (vram s \<le> a \<and> a < vram s + 8192)"
  using page_regs_shown [OF assms] assms(2) by (auto simp: page_regs_def split: if_splits)

subsection \<open>The effect of gfx_set_240p\<close>

lemma video_mode_pixels_240p: "video_mode_pixels (mode_240p wide f) = Some (if wide then 110400 else 101200)"
  by (simp add: video_mode_pixels_def mode_240p_def i32_def)

definition frame_total :: "bool \<Rightarrow> rat" where
  "frame_total wide = (if wide then 110400 else 101200)"

lemma mode_clock:
  fixes wide :: bool
  assumes "0 \<le> hz" "hz \<le> 1000"
  defines "P \<equiv> frame_total wide"
  shows "\<bar>to_float (to_double (to_float (hz * to_float P) / 1000000)) - hz * P / 1000000\<bar>
    \<le> 4 / 16777216 * (hz * P / 1000000)"
proof -
  have "to_float P = P"
    using single.small_int [of 110400] single.small_int [of 101200] by (simp add: P_def frame_total_def)
  moreover define x where "x = hz * P"
  moreover have "0 \<le> x"
    using assms by (simp add: x_def P_def frame_total_def)
  moreover define a where "a = to_float x"
  ultimately have a: "\<bar>a - x\<bar> \<le> x / 16777216" "0 \<le> a"
    using single.rnd_error [of x] single.rnd_nonneg [of x] by simp_all
  define b where "b = to_double (a / 1000000)"
  have b: "\<bar>b - a / 1000000\<bar> \<le> a / 1000000 / 16777216" "0 \<le> b"
    unfolding b_def by (rule double.rnd_error double.rnd_nonneg; use a in simp)+
  have "\<bar>to_float b - b\<bar> \<le> b / 16777216"
    using b by (intro single.rnd_error)
  then have "\<bar>to_float b - x / 1000000\<bar> \<le> 4 / 16777216 * (x / 1000000)"
    using a b \<open>0 \<le> x\<close> unfolding abs_le_iff by linarith
  then show ?thesis
    by (simp add: b_def a_def x_def \<open>to_float P = P\<close>)
qed

text \<open>A context with the size of the screen.\<close>

definition resized :: "bool \<Rightarrow> Context \<Rightarrow> Context" where
  "resized wide c = c\<lparr>rx := 0, ry := 0, rw := if wide then 48 else 40, rh := if wide then 27 else 30\<rparr>"

lemma set_240p_effect:
  assumes hz: "1 \<le> hz" "hz \<le> 1000" and idle: "8 \<le> idle_polls (pll_io r)"
    and s: "length (contexts s) = 8" "ctx s < 8" "page_front s = 0 \<or> page_front s = 1"
  shows "\<exists>s' r' c m k. gfx_set_240p hz wide (s, r) = Some (s', r') \<and>
    pll_writes r' = pll_writes r @ pll_sequence (c, m, k) @ [(2, 0)] \<and>
    ce_numer r' = 1 \<and> ce_denom r' = 4 \<and>
    timing r' = timing_240p wide \<and>
    \<bar>pll_frequency c m k / 4 * 1000000 / frame_total wide - hz\<bar> \<le> 12 / 1000 * hz \<and>
    (8 \<le> hz \<longrightarrow> generator_clock (pll_sequence (c, m, k)) = Some (pll_frequency c m k)) \<and>
    page_regs s' \<and> tile_ctrl s' = \<lparr>hofs = if wide then - 39 else - 31, vofs = if page_front s = 0 then 506 else - 6\<rparr> \<and>
    pages_ok s' \<and> gfx_wf s' \<and> context_idx s' = 1 \<and> contexts s' ! 0 = resized wide (contexts s ! 0) \<and>
    cur s' = (if ctx s = 0 then resized wide (cur s) else cur s) \<and>
    vram s' = (if page_front s = 0 then 0 else 8192) \<and> page_front s' = 1 - page_front s \<and>
    tiles s' = tiles s \<and> menus s' = menus s \<and> gamepad_pressed s' = gamepad_pressed s"
proof -
  define P where "P = frame_total wide"
  have P: "101200 \<le> P" "P \<le> 120000"
    by (simp_all add: P_def frame_total_def)
  define f where "f = to_float (to_double (to_float (hz * to_float P) / 1000000))"
  have f: "\<bar>f - hz * P / 1000000\<bar> \<le> 4 / 16777216 * (hz * P / 1000000)"
    unfolding f_def P_def using hz by (intro mode_clock) auto
  have "1 * 101200 \<le> hz * P" "hz * P \<le> 1000 * 120000"
    using P hz by (intro mult_mono; simp)+
  then have "1 / 1000 \<le> f" "f \<le> 20000"
    using f unfolding abs_le_iff by linarith+
  moreover define mode where "mode = mode_240p wide f"
  moreover have "mhz mode = f"
    by (simp add: mode_def mode_240p_def)
  ultimately obtain c m k polls where crt: "\<bar>pll_frequency c m k / 4 - f\<bar> \<le> 11 / 1000 * f"
    "4 / 5 \<le> f \<and> f \<le> 4000 \<longrightarrow> generator_clock (pll_sequence (c, m, k)) = Some (pll_frequency c m k)"
    "crt_set_mode mode wide r = Some \<lparr>ce_numer = 1, ce_denom = 4,
         timing = [hact mode, hfp mode, hs mode, hbp mode, vact mode, vfp mode, vs mode, vbp mode],
         arx = (if wide then 16 else 4), ary = (if wide then 9 else 3),
         pll_writes = pll_writes r @ pll_sequence (c, m, k) @ [(2, 0)], pll_io = polls\<rparr>"
    using crt_set_mode_effect [of mode r wide] idle by auto
  define r' where "r' = \<lparr>ce_numer = 1, ce_denom = 4,
         timing = [hact mode, hfp mode, hs mode, hbp mode, vact mode, vfp mode, vs mode, vbp mode],
         arx = (if wide then 16 else 4), ary = (if wide then 9 else 3),
         pll_writes = pll_writes r @ pll_sequence (c, m, k) @ [(2, 0)], pll_io = polls\<rparr>"
  define ho :: u16 where "ho = of_int (- (uint (hs mode) + uint (hfp mode) - 9))"
  define s1 where "s1 = s\<lparr>contexts := (contexts s)[0 := resized wide (contexts s ! 0)],
    page_tile_ctrl := [\<lparr>hofs = ho, vofs = of_int (- uint (vbp mode))\<rparr>,
       \<lparr>hofs = ho, vofs = of_int (64 * 8 - uint (vbp mode))\<rparr>], page_vram := [0, TILE_MAX_W * 64]\<rparr>"
  have ok: "pages_ok s1"
    using s by (simp add: s1_def pages_ok_def TILE_MAX_W_def)
  have vofs: "map vofs (page_tile_ctrl s1) = [- 6, 506]"
    by (simp add: s1_def mode_def mode_240p_def)
  obtain s' where s': "gfx_pageflip s1 = Some s'" "menus s' = menus s" "gamepad_pressed s' = gamepad_pressed s"
    using gfx_pageflip_eq [OF ok] by (simp add: s1_def)
  have regs: "tile_ctrl s' = \<lparr>hofs = if wide then - 39 else - 31, vofs = if page_front s = 0 then 506 else - 6\<rparr>"
    using gfx_pageflip_eq [OF ok] s'(1) s(3) by (auto simp: s1_def ho_def mode_def mode_240p_def)
  have gen: "generator_clock (pll_sequence (c, m, k)) = Some (pll_frequency c m k)" if "8 \<le> hz"
  proof -
    have "8 * 101200 \<le> hz * P"
      using that P(1) by (intro mult_mono) simp_all
    moreover have "hz * P \<le> 1000 * 120000"
      using P hz by (intro mult_mono) simp_all
    ultimately show ?thesis
      using f crt(2) unfolding abs_le_iff by linarith
  qed
  have "of_nat (unat (if wide then 110400 else 101200 :: u32)) = P"
    by (simp add: P_def frame_total_def)
  then have "gfx_set_240p hz wide (s, r) = Some (s', r')"
    using crt(3) s'(1)
    by (simp add: gfx_set_240p_def video_mode_pixels_240p f_def [symmetric] mode_def [symmetric] r'_def
        ho_def s1_def resized_def Let_def split: if_splits)
  moreover have "\<bar>pll_frequency c m k / 4 * 1000000 / P - hz\<bar> \<le> 12 / 1000 * hz"
  proof -
    define x q where "x = hz * P / 1000000" and "q = pll_frequency c m k / 4"
    have "\<bar>f - x\<bar> \<le> 4 / 16777216 * x" "\<bar>q - f\<bar> \<le> 11 / 1000 * f"
      using f crt(1) by (simp_all only: x_def q_def)
    moreover have "0 \<le> x"
      using hz P by (simp add: x_def)
    ultimately have "\<bar>q - x\<bar> \<le> 12 / 1000 * x"
      unfolding abs_le_iff by linarith
    then have "1000000 / P * \<bar>q - x\<bar> \<le> 1000000 / P * (12 / 1000 * x)"
      using P by (intro mult_left_mono) auto
    moreover have "1000000 / P * \<bar>q - x\<bar> = \<bar>1000000 / P * (q - x)\<bar>"
      using P by (simp only: abs_mult) simp
    moreover have "1000000 / P * (q - x) = q * 1000000 / P - hz" "1000000 / P * (12 / 1000 * x) = 12 / 1000 * hz"
      using P by (simp_all add: x_def field_simps)
    ultimately show ?thesis
      by (simp only: q_def)
  qed
  moreover have "cur s1 = (if ctx s = 0 then resized wide (cur s) else cur s)" "contexts s1 ! 0 = resized wide (contexts s ! 0)"
    "page_front s1 = page_front s" "tiles s1 = tiles s"
    using s by (simp_all add: s1_def cur_def)
  moreover note gfx_pageflip_wf [OF ok s'(1)]
  moreover note gfx_pageflip_regs [OF ok vofs s'(1)]
  moreover have "timing r' = timing_240p wide"
    by (simp add: r'_def mode_def mode_240p_def timing_240p_def)
  ultimately show ?thesis
    using s'(2,3) regs gen
    by (intro exI [of _ s'] exI [of _ r'] exI [of _ c] exI [of _ m] exI [of _ k]) (simp add: r'_def P_def)
qed

text \<open>C26. gfx_set_240p programs the narrow or the wide 240p timing and, for every rate from 8 to 1000 Hz, a
  clock that gives the wanted refresh rate to 1.2 percent: the clock is read back from the registers
  sent, the pixel rate from the divider and the frame from the timing registers. Afterwards the root
  context has the size of that screen in tiles, the pages are swapped, the first line outside the
  vertical blank shows the first row of the page now in front, and no tile on screen belongs to the page
  that drawing goes to.\<close>

theorem gfx_set_240p_refresh:
  assumes "8 \<le> hz" "hz \<le> 1000" "8 \<le> idle_polls (pll_io r)"
    and "length (contexts s) = 8" "ctx s < 8" "page_front s = 0 \<or> page_front s = 1"
  shows "\<exists>s' r' ws F. gfx_set_240p hz wide (s, r) = Some (s', r') \<and>
    pll_writes r' = pll_writes r @ ws @ [(2, 0)] \<and> generator_clock ws = Some F \<and>
    timing r' = (if wide then [384, 16, 32, 48, 216, 3, 5, 6] else [320, 8, 32, 40, 240, 3, 4, 6]) \<and>
    \<bar>F * of_nat (unat (ce_numer r')) / of_nat (unat (ce_denom r')) * 1000000 /
      of_int (frame_pixels (map uint (timing r'))) - hz\<bar> \<le> 12 / 1000 * hz \<and>
    contexts s' ! 0 = resized wide (contexts s ! 0) \<and>
    vram s' = (if page_front s = 0 then 0 else 8192) \<and> page_front s' \<noteq> page_front s \<and>
    (\<forall>hcnt. tile_address (tile_ctrl s') hcnt 6 div 128 = (if page_front s = 0 then 64 else 0)) \<and>
    (\<forall>a. shown s' r' a \<longrightarrow> \<not> (vram s' \<le> a \<and> a < vram s' + 8192))"
proof -
  have "1 \<le> hz"
    using assms(1) by simp
  then obtain s' r' c m k where e: "gfx_set_240p hz wide (s, r) = Some (s', r')"
    "pll_writes r' = pll_writes r @ pll_sequence (c, m, k) @ [(2, 0)]" "ce_numer r' = 1" "ce_denom r' = 4"
    "timing r' = timing_240p wide"
    "\<bar>pll_frequency c m k / 4 * 1000000 / frame_total wide - hz\<bar> \<le> 12 / 1000 * hz"
    "generator_clock (pll_sequence (c, m, k)) = Some (pll_frequency c m k)" "page_regs s'"
    "tile_ctrl s' = \<lparr>hofs = if wide then - 39 else - 31, vofs = if page_front s = 0 then 506 else - 6\<rparr>"
    "pages_ok s'" "contexts s' ! 0 = resized wide (contexts s ! 0)"
    "vram s' = (if page_front s = 0 then 0 else 8192)" "page_front s' = 1 - page_front s"
    using set_240p_effect [OF _ assms(2-6), of wide] assms(1) by blast
  have "of_int (frame_pixels (map uint (timing r'))) = frame_total wide"
    by (simp add: e(5) timing_240p_def frame_pixels_def frame_total_def)
  moreover have "page_front s' \<noteq> page_front s"
    using assms(6) e(13) by auto
  moreover have "\<forall>hcnt. tile_address (tile_ctrl s') hcnt 6 div 128 = (if page_front s = 0 then 64 else 0)"
    by (intro allI tile_address_first) (simp add: e(9))
  moreover note shown_not_drawn [OF e(10,8,5)]
  ultimately show ?thesis
    using e by (intro exI [of _ s'] exI [of _ r'] exI [of _ "pll_sequence (c, m, k)"] exI [of _ "pll_frequency c m k"])
      (simp add: timing_240p_def)
qed

theorem gfx_set_240p_refresh_witness:
  "\<exists>s' r' ws F a. gfx_set_240p 60 True (demo_gfx, \<lparr>ce_numer = 0, ce_denom = 0, timing = [], arx = 0, ary = 0,
      pll_writes = [], pll_io = replicate 8 0\<rparr>) = Some (s', r') \<and>
    pll_writes r' = ws @ [(2, 0)] \<and> generator_clock ws = Some F \<and>
    \<bar>F * of_nat (unat (ce_numer r')) / of_nat (unat (ce_denom r')) * 1000000 / 110400 - 60\<bar> \<le> 12 / 1000 * 60 \<and>
    rw (contexts s' ! 0) = 48 \<and> vram s' = 0 \<and> shown s' r' a \<and> a div 128 = 64"
proof -
  define r where "r = \<lparr>ce_numer = 0, ce_denom = 0, timing = [], arx = 0, ary = 0, pll_writes = [],
    pll_io = replicate 8 0\<rparr>"
  have r: "8 \<le> idle_polls (pll_io r)" "pll_writes r = []"
    by (simp_all add: r_def idle_polls_def)
  have "length (contexts demo_gfx) = 8" "ctx demo_gfx < 8" "page_front demo_gfx = 0"
    by (simp_all add: demo_gfx_def)
  then obtain s' r' ws F where s': "gfx_set_240p 60 True (demo_gfx, r) = Some (s', r')"
    "pll_writes r' = pll_writes r @ ws @ [(2, 0)]" "generator_clock ws = Some F"
    "timing r' = [384, 16, 32, 48, 216, 3, 5, 6]"
    "\<bar>F * of_nat (unat (ce_numer r')) / of_nat (unat (ce_denom r')) * 1000000 /
      of_int (frame_pixels (map uint (timing r'))) - 60\<bar> \<le> 12 / 1000 * 60"
    "contexts s' ! 0 = resized True (contexts demo_gfx ! 0)" "vram s' = 0"
    "\<forall>hcnt. tile_address (tile_ctrl s') hcnt 6 div 128 = 64"
    using gfx_set_240p_refresh [of 60 r demo_gfx True] r(1) by auto
  have "frame_pixels (map uint (timing r')) = 110400" "\<not> in_vblank r' 6"
    by (simp_all add: s'(4) frame_pixels_def in_vblank_def)
  then show ?thesis
    unfolding r_def [symmetric] using s' r(2)
    by (intro exI [of _ s'] exI [of _ r'] exI [of _ ws] exI [of _ F] exI [of _ "tile_address (tile_ctrl s') 0 6"])
      (auto simp: resized_def shown_def)
qed

end
