(* ===== verification/Status.thy ===== *)
theory Status
  imports Sampling Gfx
begin

text \<open>
  The status lines of main.c: the statistics over the ring of samples, their text in milliseconds,
  and the four line buffers that the sampling screen shows.
\<close>

subsection \<open>C strings and buffers\<close>

text \<open>The string at the start of a buffer, up to its terminator.\<close>

definition c_string :: "char list \<Rightarrow> char list option" where
  "c_string b = (if NUL \<in> set b then Some (takeWhile (\<lambda>c. c \<noteq> NUL) b) else None)"

text \<open>snprintf into a buffer of the firmware: the buffer afterwards and the value returned.\<close>

definition snprintf_buf ::
  "char list \<Rightarrow> u32 \<Rightarrow> char list \<Rightarrow> va list \<Rightarrow> (u32 \<times> char list) option" where
  "snprintf_buf b n format args =
     (case snprintf (Some b) n format args of
        Some (r, _, Some b', _) \<Rightarrow> Some (r, b')
      | _ \<Rightarrow> None)"

lemma c_string_text: "NUL \<notin> set t \<Longrightarrow> c_string (t @ NUL # u) = Some t"
  by (subst c_string_def, subst takeWhile_append2) auto

lemma snprintf_buf_text:
  assumes "format_out 0 fmt args = Some (t, [])" "NUL \<notin> set t" "length t < 2 ^ 32"
    and "0 < n" "n \<le> PRINTF_MAX_POSSIBLE_BUFFER_SIZE" "unat n \<le> length b"
  obtains b' where "snprintf_buf b n fmt args = Some (of_nat (length t), b')"
    "c_string b' = Some (take (unat n - 1) t)" "length b' = length b"
proof -
  define b' where "b' = take (unat n - 1) t @ NUL # drop (Suc (min (unat n - 1) (length t))) b"
  have "0 < unat n"
    using assms(4) by (simp add: word_less_nat_alt)
  then have "length b' = length b"
    using assms(6) by (auto simp: b'_def min_def)
  moreover have "c_string b' = Some (take (unat n - 1) t)"
    using assms(2) unfolding b'_def by (intro c_string_text) (auto dest: in_set_takeD)
  moreover have "snprintf_buf b n fmt args = Some (of_nat (length t), b')"
    using vsnprintf_text [OF assms(1,3,4,5,6)] by (simp add: snprintf_buf_def snprintf_def b'_def)
  ultimately show ?thesis
    using that by blast
qed

subsection \<open>The status lines\<close>

definition STATUS_W :: u32 where "STATUS_W = 16"
definition STATUS_H :: nat where "STATUS_H = 4"

record StatusInfo =
  lines :: "char list list"
  colors :: "u8 list"

text \<open>memset of the structure in main.\<close>

definition status_init :: StatusInfo where
  "status_init = \<lparr>lines = replicate STATUS_H (replicate (unat STATUS_W + 1) NUL), colors = replicate STATUS_H 0\<rparr>"

definition ticks_to_ms_str :: "u32 \<Rightarrow> char list \<Rightarrow> u32 \<Rightarrow> (u32 \<times> char list) option" where
  "ticks_to_ms_str t str len =
     (case clock_ticks_to_ms_us t of (ms, us) \<Rightarrow> snprintf_buf str len ''%u.%03u'' [VInt ms, VInt us])"

text \<open>snprintf into one of the lines, with the string in a buffer as its argument.\<close>

definition print_line :: "nat \<Rightarrow> char list \<Rightarrow> char list \<Rightarrow> StatusInfo \<Rightarrow> StatusInfo option" where
  "print_line i format arg st =
     do {
       str \<leftarrow> c_string arg;
       (_, b) \<leftarrow> snprintf_buf (lines st ! i) STATUS_W format [VStr (Some str)];
       Some (st\<lparr>lines := (lines st)[i := b]\<rparr>)
     }"

text \<open>The loop over the samples: smallest, largest and total.\<close>

definition sample_step :: "u32 \<Rightarrow> u32 \<times> u32 \<times> u32 \<Rightarrow> u32 \<times> u32 \<times> u32" where
  "sample_step t acc =
     (case acc of (min_ticks, max_ticks, total_ticks) \<Rightarrow>
        (if t < min_ticks then t else min_ticks, if t > max_ticks then t else max_ticks, total_ticks + t))"

definition sample_stats :: "u32 list \<Rightarrow> u32 \<times> u32 \<times> u32" where
  "sample_stats xs = fold sample_step xs (0xffffffff, 0, 0)"

text \<open>The two local buffers; what they hold before the first call is overwritten up to the
  terminator. Without samples the division traps.\<close>

definition update_sample_status :: "'a sampler_scheme \<Rightarrow> StatusInfo \<Rightarrow> StatusInfo option" where
  "update_sample_status s st =
     (case sample_stats (take (history_len s) (samples s)) of (min_ticks, max_ticks, total_ticks) \<Rightarrow>
      if history_len s = 0 then None
      else do {
        let mean_ticks = total_ticks div of_nat (history_len s);
        let st = st\<lparr>colors := [TEXT_GRAY, TEXT_GRAY, TEXT_GRAY, TEXT_GRAY]\<rparr>;
        (_, ms_str1) \<leftarrow> ticks_to_ms_str (latest_sample s) (replicate 16 NUL) 16;
        (_, ms_str2) \<leftarrow> ticks_to_ms_str mean_ticks (replicate 16 NUL) 16;
        st \<leftarrow> print_line 0 ''Cur: %s ms'' ms_str1 st;
        st \<leftarrow> print_line 1 ''Avg: %s ms'' ms_str2 st;
        (_, ms_str1) \<leftarrow> ticks_to_ms_str min_ticks ms_str1 16;
        (_, ms_str2) \<leftarrow> ticks_to_ms_str max_ticks ms_str2 16;
        st \<leftarrow> print_line 2 ''Min: %s ms'' ms_str1 st;
        print_line 3 ''Max: %s ms'' ms_str2 st
      })"

text \<open>What do_sampling does with the outcome of the sample, after drawing.\<close>

definition show_outcome :: "sampler \<times> StatusInfo \<Rightarrow> (sampler \<times> StatusInfo) option" where
  "show_outcome p =
     (case p of (s, st) \<Rightarrow> do {
        st \<leftarrow> (case sample_status s of
             MISSING_SAMPLE \<Rightarrow>
               do {
                 (_, b) \<leftarrow> snprintf_buf (lines st ! 0) STATUS_W ''CUR: NO SAMPLE'' [];
                 Some (st\<lparr>colors := (colors st)[0 := TEXT_ORANGE], lines := (lines st)[0 := b]\<rparr>)
               }
           | NEW_SAMPLE \<Rightarrow> update_sample_status s st
           | NO_SAMPLE \<Rightarrow> Some st);
        Some (s\<lparr>sample_status := NO_SAMPLE\<rparr>, st)
      })"

subsection \<open>Times as text\<close>

definition pad3 :: "nat \<Rightarrow> char list" where
  "pad3 n = replicate (3 - length (dec n)) CHR ''0'' @ dec n"

definition ms_text :: "nat \<Rightarrow> char list" where
  "ms_text t = dec (t div 10000) @ ''.'' @ pad3 (t div 10 mod 1000)"

lemma NUL_not_in_dec: "NUL \<notin> set (dec n)"
proof
  assume "NUL \<in> set (dec n)"
  then obtain d where d: "d \<in> set (digits_lsb 10 n)" "char_of (48 + d) = NUL"
    by (auto simp: dec_def)
  then have "d < 10"
    using digits_lsb_less [of 10] by simp
  then have "of_char (char_of (48 + d)) = 48 + d"
    by simp
  then have "of_char NUL = 48 + d"
    by (simp only: d(2))
  then show False
    by (simp add: NUL_def)
qed

lemma NUL_not_in_pad3: "NUL \<notin> set (pad3 n)"
  using NUL_not_in_dec [of n] by (auto simp: pad3_def NUL_def)

lemma NUL_not_in_ms_text: "NUL \<notin> set (ms_text t)"
  using NUL_not_in_dec NUL_not_in_pad3 by (auto simp: ms_text_def NUL_def)

lemma length_pad3: "n < 1000 \<Longrightarrow> length (pad3 n) = 3"
  using length_dec [of n 2] by (auto simp: pad3_def)

lemma length_ms_text: "t < 10 ^ (4 + Suc k) \<Longrightarrow> length (ms_text t) \<le> 5 + k"
proof -
  assume "t < 10 ^ (4 + Suc k)"
  then have "t div 10000 < 10 ^ Suc k"
    by (simp add: less_mult_imp_div_less mult.commute power_add)
  then show ?thesis
    using length_dec [of "t div 10000" k] length_pad3 [of "t div 10 mod 1000"]
    by (simp add: ms_text_def)
qed

lemma length_ms_text_u32: "length (ms_text (unat (t :: u32))) \<le> 10"
proof -
  have "unat t < 2 ^ 32"
    using unsigned_less [of t] by simp
  then have "unat t < 10 ^ (4 + Suc 5)"
    by simp
  then show ?thesis
    using length_ms_text [of "unat t" 5] by simp
qed

lemma ticks_to_ms_str_text:
  assumes "length b = 16"
  obtains b' where "ticks_to_ms_str t b 16 = Some (of_nat (length (ms_text (unat t))), b')"
    "c_string b' = Some (ms_text (unat t))" "length b' = 16"
proof -
  obtain ms us where mu: "clock_ticks_to_ms_us t = (ms, us)" "unat ms = unat t div 10000"
    "unat us = unat t div 10 mod 1000"
    by (simp add: clock_ticks_to_ms_us_def CLOCK_REF_KHZ_def CLOCK_REF_MHZ_def unat_div unat_mod)
  note len = length_ms_text_u32 [of t]
  have "format_out 0 ''%u.%03u'' [VInt ms, VInt us] = Some (ms_text (unat t), [])"
    using conversion_out_03u [of _ "[]" us "[]"]
    by (simp add: format_out_conv [OF conversion_out_u] format_out_lit format_out_conv format_out_Nil
        mu ms_text_def pad3_def)
  then obtain b' where "snprintf_buf b 16 ''%u.%03u'' [VInt ms, VInt us] =
      Some (of_nat (length (ms_text (unat t))), b')" "c_string b' = Some (take 15 (ms_text (unat t)))"
      "length b' = length b"
    using NUL_not_in_ms_text len assms
    by (elim snprintf_buf_text [where n = 16 and b = b])
      (auto simp: PRINTF_MAX_POSSIBLE_BUFFER_SIZE_def)
  then show ?thesis
    using that len assms by (simp add: ticks_to_ms_str_def mu)
qed

subsection \<open>Samples\<close>

lemma sample_stats_snoc: "sample_stats (xs @ [x]) = sample_step x (sample_stats xs)"
  by (simp add: sample_stats_def)

lemma sample_stats_bounds:
  assumes "xs \<noteq> []" "(\<Sum>x\<leftarrow>xs. unat x) < 2 ^ 32"
  obtains mn mx tot where "sample_stats xs = (mn, mx, tot)" "mn = Min (set xs)" "mx = Max (set xs)"
    "unat tot = (\<Sum>x\<leftarrow>xs. unat x)"
proof -
  have "\<exists>mn mx tot. sample_stats xs = (mn, mx, tot) \<and> unat tot = (\<Sum>x\<leftarrow>xs. unat x) \<and>
      mn = (if xs = [] then 0xffffffff else Min (set xs)) \<and> mx = (if xs = [] then 0 else Max (set xs))"
    using assms(2)
  proof (induction xs rule: rev_induct)
    case Nil
    then show ?case
      by (simp add: sample_stats_def)
  next
    case (snoc x xs)
    then obtain mn mx tot where IH: "sample_stats xs = (mn, mx, tot)" "unat tot = (\<Sum>x\<leftarrow>xs. unat x)"
      "mn = (if xs = [] then 0xffffffff else Min (set xs))" "mx = (if xs = [] then 0 else Max (set xs))"
      by auto
    have "unat (tot + x) = unat tot + unat x"
      using snoc.prems IH(2) by (subst unat_add_lem [THEN iffD1]) simp_all
    moreover have "(if x < mn then x else mn) = Min (set (xs @ [x]))"
    proof (cases "xs = []")
      case True
      have "(0xffffffff :: u32) = - 1"
        by simp
      then have "x \<le> 0xffffffff"
        by (simp only: word_n1_ge)
      then show ?thesis
        using True IH(3) by (auto simp: not_less)
    next
      case False
      then have e: "Min (set (xs @ [x])) = min x mn"
        using IH(3) by simp
      show ?thesis
        unfolding e by (auto simp: min_def)
    qed
    moreover have "(if x > mx then x else mx) = Max (set (xs @ [x]))"
    proof (cases "xs = []")
      case False
      then have e: "Max (set (xs @ [x])) = max x mx"
        using IH(4) by simp
      show ?thesis
        unfolding e by (auto simp: max_def)
    qed (auto simp: IH(4) word_gt_0)
    ultimately show ?case
      using IH(1,2) by (simp add: sample_stats_snoc sample_step_def)
  qed
  then show ?thesis
    using that assms(1) by auto
qed

subsection \<open>Lines\<close>

text \<open>The well-formed status: four lines, each a terminated text of at most fifteen characters in its
  buffer of seventeen.\<close>

definition line_ok :: "char list \<Rightarrow> bool" where
  "line_ok b \<longleftrightarrow> length b = 17 \<and> returns (c_string b) (\<lambda>t. length t \<le> 15)"

definition status_ok :: "StatusInfo \<Rightarrow> bool" where
  "status_ok st \<longleftrightarrow> length (lines st) = 4 \<and> length (colors st) = 4 \<and> list_all line_ok (lines st)"

lemma status_ok_init: "status_ok status_init"
  by (simp add: status_ok_def status_init_def line_ok_def c_string_def STATUS_W_def STATUS_H_def
      list_all_iff takeWhile_replicate)

lemma format_out_lits:
  "CHR ''%'' \<notin> set p \<Longrightarrow> format_out n (p @ fmt) as =
     map_option (\<lambda>(t, ws). (p @ t, ws)) (format_out (n + of_nat (length p)) fmt as)"
proof (induction p arbitrary: n)
  case Nil
  then show ?case
    by (cases "format_out n fmt as") auto
next
  case (Cons c p)
  then show ?case
    by (cases "format_out (n + (1 + of_nat (length p))) fmt as") (auto simp: format_out_lit add.assoc)
qed

lemma c_string_no_NUL: "c_string b = Some t \<Longrightarrow> NUL \<notin> set t"
  by (auto simp: c_string_def split: if_splits dest: set_takeWhileD)

lemma print_line_text:
  assumes "status_ok st" "i < 4" "c_string arg = Some str" "length str < 1000"
    and p: "CHR ''%'' \<notin> set p" "NUL \<notin> set p" "length p < 1000"
  obtains b where "print_line i (p @ ''%s ms'') arg st = Some (st\<lparr>lines := (lines st)[i := b]\<rparr>)"
    "c_string b = Some (take 15 (p @ str @ '' ms''))" "line_ok b"
proof -
  have "format_out 0 (p @ ''%s ms'') [VStr (Some str)] = Some (p @ str @ '' ms'', [])"
    by (simp add: format_out_lits [OF p(1)] format_out_conv [OF conversion_out_s] format_out_lit format_out_Nil)
  moreover have "length (lines st ! i) = 17"
    using assms(1,2) by (auto simp: status_ok_def line_ok_def list_all_length)
  moreover have "NUL \<notin> set (p @ str @ '' ms'')"
    using c_string_no_NUL [OF assms(3)] p(2) by (auto simp: NUL_def)
  ultimately obtain b where b: "snprintf_buf (lines st ! i) 16 (p @ ''%s ms'') [VStr (Some str)] =
      Some (of_nat (length (p @ str @ '' ms'')), b)" "c_string b = Some (take 15 (p @ str @ '' ms''))" "length b = 17"
    using assms(4) p(3)
    by (elim snprintf_buf_text [where n = 16 and b = "lines st ! i"])
      (auto simp: PRINTF_MAX_POSSIBLE_BUFFER_SIZE_def)
  then show ?thesis
    using that [of b] assms(3) by (simp add: print_line_def STATUS_W_def line_ok_def)
qed

lemma status_ok_line: "status_ok st \<Longrightarrow> line_ok b \<Longrightarrow> status_ok (st\<lparr>lines := (lines st)[i := b]\<rparr>)"
  by (auto simp: status_ok_def list_all_iff dest!: set_update_subset_insert [THEN subsetD])

lemma status_line_step:
  assumes "status_ok st" "i < 4" "c_string arg = Some (ms_text (unat (t :: u32)))"
    and "CHR ''%'' \<notin> set p" "NUL \<notin> set p" "length p < 1000"
  obtains st' where "print_line i (p @ ''%s ms'') arg st = Some st'" "status_ok st'" "colors st' = colors st"
    "map c_string (lines st') = (map c_string (lines st))[i := Some (take 15 (p @ ms_text (unat t) @ '' ms''))]"
proof -
  have "length (ms_text (unat t)) < 1000"
    using length_ms_text_u32 [of t] by simp
  then obtain b where "print_line i (p @ ''%s ms'') arg st = Some (st\<lparr>lines := (lines st)[i := b]\<rparr>)"
    "c_string b = Some (take 15 (p @ ms_text (unat t) @ '' ms''))" "line_ok b"
    using print_line_text [OF assms(1-3) _ assms(4-6)] by blast
  then show ?thesis
    using assms(1) that by (simp add: status_ok_line map_update)
qed

lemma update_sample_status_lines:
  assumes "status_ok st" "history_len s \<noteq> 0" "sample_stats (take (history_len s) (samples s)) = (mn, mx, tot)"
  shows "returns (update_sample_status s st) (\<lambda>st'. status_ok st' \<and> colors st' = replicate 4 TEXT_GRAY \<and>
    map c_string (lines st') = map (\<lambda>(p, t). Some (take 15 (p @ ms_text (unat t) @ '' ms'')))
      [(''Cur: '', latest_sample s), (''Avg: '', tot div of_nat (history_len s)), (''Min: '', mn), (''Max: '', mx)])"
proof -
  define mean where "mean = tot div of_nat (history_len s)"
  obtain b1 where b1: "ticks_to_ms_str (latest_sample s) (replicate 16 NUL) 16 =
      Some (of_nat (length (ms_text (unat (latest_sample s)))), b1)"
    "c_string b1 = Some (ms_text (unat (latest_sample s)))" "length b1 = 16"
    using ticks_to_ms_str_text [of "replicate 16 NUL"] by auto
  obtain b2 where b2: "ticks_to_ms_str mean (replicate 16 NUL) 16 =
      Some (of_nat (length (ms_text (unat mean))), b2)"
    "c_string b2 = Some (ms_text (unat mean))" "length b2 = 16"
    using ticks_to_ms_str_text [of "replicate 16 NUL"] by auto
  obtain b3 where b3: "ticks_to_ms_str mn b1 16 = Some (of_nat (length (ms_text (unat mn))), b3)"
    "c_string b3 = Some (ms_text (unat mn))"
    using ticks_to_ms_str_text [OF b1(3)] .
  obtain b4 where b4: "ticks_to_ms_str mx b2 16 = Some (of_nat (length (ms_text (unat mx))), b4)"
    "c_string b4 = Some (ms_text (unat mx))"
    using ticks_to_ms_str_text [OF b2(3)] .
  define st0 where "st0 = st\<lparr>colors := [TEXT_GRAY, TEXT_GRAY, TEXT_GRAY, TEXT_GRAY]\<rparr>"
  have ok: "status_ok st0"
    using assms(1) by (simp add: st0_def status_ok_def)
  have "length (lines st0) = 4"
    using assms(1) by (simp add: st0_def status_ok_def)
  then obtain l0 l1 l2 l3 where l: "map c_string (lines st0) = [l0, l1, l2, l3]"
    by (auto simp: numeral_eq_Suc length_Suc_conv)
  obtain st1 where st1: "print_line 0 ''Cur: %s ms'' b1 st0 = Some st1" "status_ok st1"
    "colors st1 = colors st0"
    "map c_string (lines st1) = (map c_string (lines st0))[0 := Some (take 15 (''Cur: '' @ ms_text (unat (latest_sample s)) @ '' ms''))]"
    by (rule status_line_step [of st0 0 b1 "(latest_sample s)" "''Cur: ''"])
      (use ok b1(2) in \<open>simp_all add: NUL_def\<close>)
  obtain st2 where st2: "print_line 1 ''Avg: %s ms'' b2 st1 = Some st2" "status_ok st2"
    "colors st2 = colors st1"
    "map c_string (lines st2) = (map c_string (lines st1))[1 := Some (take 15 (''Avg: '' @ ms_text (unat mean) @ '' ms''))]"
    by (rule status_line_step [of st1 1 b2 "mean" "''Avg: ''"])
      (use st1(2) b2(2) in \<open>simp_all add: NUL_def\<close>)
  obtain st3 where st3: "print_line 2 ''Min: %s ms'' b3 st2 = Some st3" "status_ok st3"
    "colors st3 = colors st2"
    "map c_string (lines st3) = (map c_string (lines st2))[2 := Some (take 15 (''Min: '' @ ms_text (unat mn) @ '' ms''))]"
    by (rule status_line_step [of st2 2 b3 "mn" "''Min: ''"])
      (use st2(2) b3(2) in \<open>simp_all add: NUL_def\<close>)
  obtain st4 where st4: "print_line 3 ''Max: %s ms'' b4 st3 = Some st4" "status_ok st4"
    "colors st4 = colors st3"
    "map c_string (lines st4) = (map c_string (lines st3))[3 := Some (take 15 (''Max: '' @ ms_text (unat mx) @ '' ms''))]"
    by (rule status_line_step [of st3 3 b4 "mx" "''Max: ''"])
      (use st3(2) b4(2) in \<open>simp_all add: NUL_def\<close>)
  have "update_sample_status s st = Some st4"
    using assms(2,3) b1(1) b2(1) b3(1) b4(1) st1(1) st2(1) st3(1) st4(1)
    by (simp add: update_sample_status_def mean_def [symmetric] st0_def [symmetric])
  moreover have "map c_string (lines st4) = map (\<lambda>(p, t). Some (take 15 (p @ ms_text (unat t) @ '' ms'')))
      [(''Cur: '', latest_sample s), (''Avg: '', mean), (''Min: '', mn), (''Max: '', mx)]"
    unfolding st4(4) st3(4) st2(4) st1(4) l by (simp add: numeral_2_eq_2 numeral_3_eq_3)
  moreover have "colors st4 = replicate 4 TEXT_GRAY"
    using st1(3) st2(3) st3(3) st4(3) by (simp add: st0_def numeral_eq_Suc)
  ultimately show ?thesis
    using st4(2) by (simp only: returns_Some mean_def)
qed

lemma recent_status:
  fixes h :: "u32 list" and s :: "'a sampler_scheme"
  defines "recent \<equiv> drop (length h - 16) h"
  assumes h: "ring h (samples s)" "sample_idx s = of_nat (length h)" "h \<noteq> []" "length h < 2 ^ 32"
    and latest: "latest_sample s = last h"
    and small: "list_all (\<lambda>x. unat x < 10000000) h" and st: "status_ok st"
  shows "\<exists>st'. update_sample_status s st = Some st' \<and> status_ok st' \<and>
    map c_string (lines st') = map (\<lambda>(p, t). Some (p @ ms_text t @ '' ms''))
      [(''Cur: '', unat (last h)), (''Avg: '', (\<Sum>x\<leftarrow>recent. unat x) div length recent),
       (''Min: '', unat (Min (set recent))), (''Max: '', unat (Max (set recent)))]"
proof -
  define xs where "xs = take (history_len s) (samples s)"
  have len: "history_len s = min 16 (length h)"
    using h(2,4) by (auto simp: history_len_def HISTORY_SIZE_def word_less_nat_alt unsigned_of_nat take_bit_nat_eq_self)
  then have "xs = take (length h) (samples s)"
    using h(1) by (auto simp: xs_def ring_def min_def)
  then have mset: "mset xs = mset recent"
    using ring_recent [OF h(1)] by (simp add: recent_def)
  then have set: "set xs = set recent" and len': "length xs = length recent"
    by (metis set_mset_mset, metis size_mset)
  have sum: "(\<Sum>x\<leftarrow>xs. unat x) = (\<Sum>x\<leftarrow>recent. unat x)"
    using mset by (metis mset_map sum_mset_sum_list)
  have hl: "history_len s = length recent" "length recent \<le> 16" "0 < length recent"
    using len h(3) length_greater_0_conv [of h] by (auto simp: recent_def)
  have sub: "set recent \<subseteq> set h"
    by (simp add: recent_def set_drop_subset)
  then have bound: "x \<in> set recent \<Longrightarrow> unat x \<le> 9999999" for x
    using small by (fastforce simp: list_all_iff)
  define S where "S = (\<Sum>x\<leftarrow>recent. unat x)"
  have S: "S \<le> length recent * 9999999"
    using sum_list_mono [of recent unat "\<lambda>_. 9999999"] bound by (simp add: S_def sum_list_triv)
  then have mean: "S div length recent \<le> 9999999"
    using div_le_mono [OF S, of "length recent"] hl(3) by simp
  have S32: "S < 2 ^ 32"
    using S hl(2) by simp
  have "xs \<noteq> []"
    using len' hl(3) by force
  moreover have "(\<Sum>x\<leftarrow>xs. unat x) < 2 ^ 32"
    using S32 by (simp only: sum S_def)
  ultimately obtain mn mx tot where st0: "sample_stats xs = (mn, mx, tot)" "mn = Min (set xs)"
    "mx = Max (set xs)" "unat tot = (\<Sum>x\<leftarrow>xs. unat x)"
    by (rule sample_stats_bounds)
  note stats = st0 [unfolded set sum, folded S_def]
  have mean': "unat (tot div of_nat (history_len s)) = S div length recent"
    using hl by (simp add: unat_div stats(4) unsigned_of_nat take_bit_nat_eq_self)
  have short: "length (ms_text t) \<le> 7" if "t \<le> 9999999" for t
    using length_ms_text [of t 2] that by simp
  have fits: "take 15 (p @ ms_text t @ '' ms'') = p @ ms_text t @ '' ms''" if "length p = 5" "t \<le> 9999999" for p t
    using short [OF that(2)] that(1) by simp
  have ends: "Min (set recent) \<in> set recent" "Max (set recent) \<in> set recent" "last h \<in> set h"
    using hl(3) h(3) by (auto intro: Min_in Max_in)
  have "returns (update_sample_status s st) (\<lambda>st'. status_ok st' \<and> colors st' = replicate 4 TEXT_GRAY \<and>
    map c_string (lines st') = map (\<lambda>(p, t). Some (take 15 (p @ ms_text (unat t) @ '' ms'')))
      [(''Cur: '', latest_sample s), (''Avg: '', tot div of_nat (history_len s)), (''Min: '', mn), (''Max: '', mx)])"
    using st hl stats(1) by (intro update_sample_status_lines) (auto simp: xs_def)
  moreover have "unat (last h) \<le> 9999999"
    using ends(3) small by (fastforce simp: list_all_iff)
  then have "map (\<lambda>(p, t). Some (take 15 (p @ ms_text (unat t) @ '' ms'')))
      [(''Cur: '', latest_sample s), (''Avg: '', tot div of_nat (history_len s)), (''Min: '', mn), (''Max: '', mx)] =
    map (\<lambda>(p, t). Some (p @ ms_text t @ '' ms''))
      [(''Cur: '', unat (last h)), (''Avg: '', S div length recent), (''Min: '', unat (Min (set recent))),
       (''Max: '', unat (Max (set recent)))]"
    using fits [of "''Cur: ''"] fits [of "''Avg: ''" "S div length recent"] mean
      fits [of "''Min: ''" "unat (Min (set recent))"] bound [OF ends(1)]
      fits [of "''Max: ''" "unat (Max (set recent))"] bound [OF ends(2)]
    unfolding latest stats(2,3) by (simp only: list.map prod.case mean') simp
  ultimately show ?thesis
    unfolding S_def by (auto simp only: returns_def)
qed

lemma show_outcome_ok:
  assumes "status_ok st" "sample_status s = NEW_SAMPLE \<Longrightarrow> history_len s \<noteq> 0"
  shows "returns (show_outcome (s, st)) (\<lambda>(s', st'). s' = s\<lparr>sample_status := NO_SAMPLE\<rparr> \<and> status_ok st')"
proof (cases "sample_status s")
  case NO_SAMPLE
  then show ?thesis
    using assms by (simp add: show_outcome_def)
next
  case NEW_SAMPLE
  obtain mn mx tot where "sample_stats (take (history_len s) (samples s)) = (mn, mx, tot)"
    by (cases "sample_stats (take (history_len s) (samples s))")
  then show ?thesis
    using update_sample_status_lines [OF assms(1), of s] assms(2) NEW_SAMPLE
    by (auto simp: show_outcome_def returns_def)
next
  case MISSING_SAMPLE
  have out: "format_out 0 ''CUR: NO SAMPLE'' [] = Some (''CUR: NO SAMPLE'', [])"
    by (simp add: format_out_lit format_out_Nil)
  have len: "length (lines st ! 0) = 17"
    using assms(1) by (auto simp: status_ok_def line_ok_def list_all_length)
  obtain b where b: "snprintf_buf (lines st ! 0) 16 ''CUR: NO SAMPLE'' [] = Some (14, b)"
      "c_string b = Some ''CUR: NO SAMPLE''" "length b = 17"
    by (rule snprintf_buf_text [OF out, of 16 "lines st ! 0"])
      (use len in \<open>simp_all add: PRINTF_MAX_POSSIBLE_BUFFER_SIZE_def NUL_def\<close>)
  then have "status_ok (st\<lparr>colors := (colors st)[0 := TEXT_ORANGE], lines := (lines st)[0 := b]\<rparr>)"
    using status_ok_line [of "st\<lparr>colors := (colors st)[0 := TEXT_ORANGE]\<rparr>" b 0] assms(1)
    by (simp add: line_ok_def status_ok_def)
  then show ?thesis
    using MISSING_SAMPLE b(1) by (simp add: show_outcome_def STATUS_W_def)
qed

text \<open>C9. After any history of samples below one second, update_sample_status shows four complete lines:
  the latest sample, and the mean, the smallest and the largest of the last sixteen, each in
  milliseconds with three decimals. Neither the 32-bit total nor the sixteen characters of a line cut
  anything off.\<close>

theorem status_shows_recent:
  fixes h :: "u32 list"
  defines "recent \<equiv> drop (length h - 16) h"
  assumes "h \<noteq> []" "length h < 2 ^ 32" "list_all (\<lambda>x. unat x < 10000000) h" "status_ok st"
  shows "\<exists>st'. update_sample_status (fold record_new_sample h (sampler_init w t0)) st = Some st' \<and>
    map c_string (lines st') = map (\<lambda>(p, t). Some (p @ ms_text t @ '' ms''))
      [(''Cur: '', unat (last h)), (''Avg: '', (\<Sum>x\<leftarrow>recent. unat x) div length recent),
       (''Min: '', unat (Min (set recent))), (''Max: '', unat (Max (set recent)))]"
proof -
  have "ring h (samples (fold record_new_sample h (sampler_init w t0)))"
    "sample_idx (fold record_new_sample h (sampler_init w t0)) = of_nat (length h)"
    "latest_sample (fold record_new_sample h (sampler_init w t0)) = last h"
    using record_all [OF assms(3), of "sampler_init w t0"] assms(2) by (simp_all add: sampler_init_def)
  then show ?thesis
    using recent_status [of h "fold record_new_sample h (sampler_init w t0)" st] assms by blast
qed

theorem status_shows_recent_witness:
  "\<exists>st'. update_sample_status (fold record_new_sample [152345, 160000] (sampler_init 0 0)) status_init = Some st' \<and>
    map c_string (lines st') = map Some [''Cur: 16.000 ms'', ''Avg: 15.617 ms'', ''Min: 15.234 ms'', ''Max: 16.000 ms'']"
proof -
  have "ms_text 160000 = ''16.000''" "ms_text 156172 = ''15.617''" "ms_text 152345 = ''15.234''"
    by (simp_all add: ms_text_def pad3_def dec_def digits_lsb.simps; code_simp)+
  moreover have "Min {152345, 160000 :: u32} = 152345" "Max {152345, 160000 :: u32} = 160000"
    by (simp_all add: min_def max_def)
  moreover have "312345 div Suc (Suc 0) = (156172 :: nat)"
    unfolding numeral_2_eq_2 [symmetric] by simp
  ultimately show ?thesis
    using status_shows_recent [of "[152345, 160000]" status_init 0 0] status_ok_init by simp
qed

end
