(* ===== verification/Screens.thy ===== *)
theory Screens
  imports Menu Display Status
begin

text \<open>
  The screens of main.c: the tables of resolutions and refresh rates, the palette, the random number
  generator, and the drawing of the sampling screen, the status, the missing sensor and the version.
  Every screen is shown to return and to draw on the back page only.
\<close>

subsection \<open>Constants and tables\<close>

definition FIRMWARE_VERSION :: "char list" where "FIRMWARE_VERSION = ''1.3''"

definition RGB :: "u16 \<Rightarrow> u16 \<Rightarrow> u16 \<Rightarrow> u16" where
  "RGB r g b = push_bit 7 (r AND 0xf8) OR push_bit 2 (g AND 0xf8) OR drop_bit 3 (b AND 0xf8)"

definition INT2_CTRL :: "u16 \<Rightarrow> u16" where "INT2_CTRL x = push_bit 0 (x AND 0xf)"
definition INT4_CTRL :: "u16 \<Rightarrow> u16" where "INT4_CTRL x = push_bit 4 (x AND 0xf)"
definition INT6_CTRL :: "u16 \<Rightarrow> u16" where "INT6_CTRL x = push_bit 8 (x AND 0xf)"
definition INT_SRC_VBLANK :: u16 where "INT_SRC_VBLANK = 1"
definition INT_SRC_HDMI_VBLANK :: u16 where "INT_SRC_HDMI_VBLANK = 2"
definition INT_SRC_USERIO :: u16 where "INT_SRC_USERIO = 3"
definition INT_INVERT :: u16 where "INT_INVERT = 0x8"

definition BAR_W :: u16 where "BAR_W = 11"
definition BAR_H :: u16 where "BAR_H = 4"

record HDMIResolution =
  res_width :: u16
  res_height :: u16
  res_wide :: bool

definition hdmi_resolutions :: "HDMIResolution list" where
  "hdmi_resolutions = map (\<lambda>(w, h, b). \<lparr>res_width = w, res_height = h, res_wide = b\<rparr>)
     [(640, 480, False), (800, 600, False), (1280, 720, True), (1024, 768, False),
      (1366, 768, False), (1280, 960, False), (1708, 960, True), (1920, 1080, True),
      (1600, 1200, False), (1792, 1344, False), (1920, 1440, False), (2048, 1536, False)]"

definition hdmi_refresh_rates :: "int list" where
  "hdmi_refresh_rates = [24, 30, 50, 51, 52, 53, 54, 55, 56, 57, 58, 59, 60, 61, 62, 63, 64, 65, 72]"

text \<open>An array read with an index of type int.\<close>

definition array_get :: "'a list \<Rightarrow> int \<Rightarrow> 'a option" where
  "array_get xs i = (if 0 \<le> i \<and> i < int (length xs) then Some (xs ! nat i) else None)"

text \<open>The static buffers of the two functions are overwritten up to the terminator.\<close>

definition resolution_to_string :: "int \<Rightarrow> char list option" where
  "resolution_to_string index =
     do {
       res \<leftarrow> array_get hdmi_resolutions index;
       (_, tmp) \<leftarrow> snprintf_buf (replicate 32 NUL) 32 ''%ux%u''
                   [VInt (ucast (res_width res)), VInt (ucast (res_height res))];
       c_string tmp
     }"

definition refresh_to_string :: "int \<Rightarrow> char list option" where
  "refresh_to_string index =
     do {
       hz \<leftarrow> array_get hdmi_refresh_rates index;
       (_, tmp) \<leftarrow> snprintf_buf (replicate 10 NUL) 10 ''%dhz'' [VInt (of_int hz)];
       c_string tmp
     }"

subsection \<open>Random numbers and colours\<close>

definition rand32 :: "u32 \<Rightarrow> u32" where
  "rand32 rand_state =
     (let x = rand_state;
          x = x XOR push_bit 13 x;
          x = x XOR drop_bit 17 x
      in x XOR push_bit 5 x)"

definition base_palette :: "u16 list" where
  "base_palette =
     [RGB 0x3f 0x28 0x32, RGB 0x68 0x60 0x5c, RGB 0xb0 0xb0 0xb8, RGB 0xfc 0xfc 0xfc,
      RGB 0x1c 0x38 0xac, RGB 0x70 0x70 0xfc, RGB 0xa8 0x28 0x14, RGB 0xfc 0x48 0x48,
      RGB 0x20 0x88 0x00, RGB 0x70 0xf8 0x28, RGB 0xb8 0x2c 0xd0, RGB 0xfc 0x74 0xec,
      RGB 0xac 0x58 0x1c, RGB 0xf8 0xa8 0x50, RGB 0x3c 0xd4 0xe4, RGB 0xf8 0xec 0x20]"

definition set_palette :: "'a sampler_scheme \<Rightarrow> 'a sampler_scheme" where
  "set_palette s =
     fold (\<lambda>(a, v). write_palette a v)
       (concat (map (\<lambda>i. [(2 * i, RGB 0 0 0), (2 * i + 1, base_palette ! i)]) [0..<16]) @
        [(0x20, RGB 0 0 0), (0x21, RGB 0xff 0xff 0xff),
         (0x40, RGB 0 0 0), (0x41, RGB 8 8 8), (0x42, RGB 187 187 187), (0x43, RGB 232 126 182),
         (0x44, RGB 240 148 191), (0x45, RGB 247 246 246), (0x46, RGB 255 255 255),
         (0x47, RGB 52 52 72), (0x80, RGB 0 0 0)]) s"

subsection \<open>Screens\<close>

definition align_test :: "int \<Rightarrow> u32" where
  "align_test test_position = (if test_position = 0 then ALIGN_LEFT else ALIGN_RIGHT)"

definition align_info :: "int \<Rightarrow> u32" where
  "align_info test_position = (if test_position = 0 then ALIGN_RIGHT else ALIGN_LEFT)"

fun draw_lines :: "(u8 \<times> char list) list \<Rightarrow> 'a gfx_scheme \<Rightarrow> 'a gfx_scheme option" where
  "draw_lines [] s = Some s"
| "draw_lines ((color, line) # ls) s =
     do {
       str \<leftarrow> c_string line;
       s \<leftarrow> gfx_text str (gfx_pen color s);
       draw_lines ls s
     }"

definition draw_status :: "StatusInfo \<Rightarrow> int \<Rightarrow> 'a gfx_scheme \<Rightarrow> 'a gfx_scheme option" where
  "draw_status status test_position s =
     do {
       s \<leftarrow> gfx_begin_window (ALIGN_MIDDLE OR align_info test_position) 2 (- 2) 24 (of_nat STATUS_H) 0 s;
       s \<leftarrow> draw_lines (zip (colors status) (lines status)) s;
       Some (gfx_end_window s)
     }"

text \<open>A bar of the test pattern.\<close>

definition draw_bar :: "u32 \<Rightarrow> 'a gfx_scheme \<Rightarrow> 'a gfx_scheme option" where
  "draw_bar align s = (case gfx_align_box align 0 0 BAR_W BAR_H s of (bx, by) \<Rightarrow> gfx_rect bx by BAR_W BAR_H s)"

text \<open>The drawing of do_sampling; the random number decides the picture.\<close>

definition draw_sampling ::
  "StatusInfo \<Rightarrow> char list \<Rightarrow> int \<Rightarrow> u32 \<Rightarrow> 'a gfx_scheme \<Rightarrow> 'a gfx_scheme option" where
  "draw_sampling status video_mode_desc test_position rand s =
     do {
       s \<leftarrow> gfx_clear s;
       s \<leftarrow> gfx_display_border (gfx_pen TEXT_DARK_GRAY s);
       s \<leftarrow> draw_bar (align_test test_position OR ALIGN_TOP) (gfx_pen 0x80 s);
       s \<leftarrow> draw_bar (align_test test_position OR ALIGN_MIDDLE) s;
       s \<leftarrow> draw_bar (align_test test_position OR ALIGN_BOTTOM) s;
       let (bx, by) = gfx_align_box (align_info test_position OR ALIGN_TOP) 2 2 4 4 s;
       s \<leftarrow> (if rand AND 0xff33 = 0 then gfx_image (0x80 + 16) 0x40 bx by 4 4 s
             else gfx_image 0x80 0x40 bx by 4 4 s);
       s \<leftarrow> gfx_begin_window (ALIGN_BOTTOM OR align_info test_position) 2 5 24 2 0 s;
       desc \<leftarrow> c_string video_mode_desc;
       s \<leftarrow> gfx_textf ''Mode: %s'' [VStr (Some desc)] (gfx_pen TEXT_BLUE s);
       s \<leftarrow> gfx_text ''Press START for menu.'' (gfx_pen TEXT_DARK_BLUE s);
       draw_status status test_position (gfx_end_window s)
     }"

definition draw_no_sensor :: "'a gfx_scheme \<Rightarrow> 'a gfx_scheme option" where
  "draw_no_sensor s =
     do {
       s \<leftarrow> gfx_clear s;
       s \<leftarrow> gfx_begin_window (ALIGN_CENTER OR ALIGN_MIDDLE) 0 0 34 6 1 (gfx_pen TEXT_RED s);
       s \<leftarrow> gfx_text_aligned ALIGN_CENTER ''No sensor detected!'' s;
       s \<leftarrow> gfx_text_aligned ALIGN_LEFT ''Connect your MiSTer Laggy sensor''
              (gfx_pen TEXT_ORANGE (gfx_newline 1 s));
       s \<leftarrow> gfx_text_aligned ALIGN_LEFT ''to the User Port.'' s;
       Some (gfx_end_window s)
     }"

definition draw_version :: "int \<Rightarrow> u32 \<Rightarrow> 'a gfx_scheme \<Rightarrow> 'a gfx_scheme option" where
  "draw_version test_position core_version s =
     do {
       s \<leftarrow> gfx_begin_window (ALIGN_BOTTOM OR align_info test_position) 2 2 24 1 0 (gfx_pen TEXT_DARK s);
       s \<leftarrow> gfx_textf_aligned ALIGN_LEFT ''MiSTer Laggy %s/%06u''
              [VStr (Some FIRMWARE_VERSION), VInt core_version] s;
       Some (gfx_end_window s)
     }"

subsection \<open>Drawing a screen\<close>

text \<open>The root context of either screen size.\<close>

definition screen_ctx :: "Context \<Rightarrow> bool" where
  "screen_ctx c \<longleftrightarrow> rx c = 0 \<and> ry c = 0 \<and> (rw c = 40 \<and> rh c = 30 \<or> rw c = 48 \<and> rh c = 27) \<and>
     ctx_y c = 0 \<and> \<not> sameline c"

lemma screen_ctx_pen [simp]: "screen_ctx (c\<lparr>pen := p\<rparr>) = screen_ctx c"
  by (simp add: screen_ctx_def)

lemma screen_ctxE:
  assumes "screen_ctx c"
  obtains "rx c = 0" "ry c = 0" "ctx_y c = 0" "\<not> sameline c" "rw c = 40" "rh c = 30"
  | "rx c = 0" "ry c = 0" "ctx_y c = 0" "\<not> sameline c" "rw c = 48" "rh c = 27"
  using assms by (auto simp: screen_ctx_def)

lemmas layout_simps = window_ctx_def framed_def text_ctx_def text_x_def align_test_def align_info_def
  align_defs has_flag_def box_ok_def STATUS_H_def BAR_W_def BAR_H_def

lemma returnsI: "returns x P \<Longrightarrow> (\<And>y. P y \<Longrightarrow> Q y) \<Longrightarrow> returns x Q"
  by (auto simp: returns_def)

lemma drawn_lines:
  assumes "drawn s (c # r) ms s'" "\<not> sameline c"
    and "list_all (\<lambda>(color, b). returns (c_string b) (\<lambda>t. length t \<le> 15)) ls"
    and "uint (ry c) + uint (ctx_y c) + int (length ls) \<le> 63" "uint (rx c) \<le> 100"
  shows "returns (draw_lines ls s') (\<lambda>s''. \<exists>c'. drawn s (c' # r) ms s'')"
  using assms
proof (induction ls arbitrary: c s')
  case Nil
  then show ?case
    by auto
next
  case (Cons l ls)
  obtain color b where l: "l = (color, b)"
    by (cases l)
  obtain t where t: "c_string b = Some t" "length t \<le> 15"
    using Cons.prems(3) by (auto simp: l elim: returnsE)
  define c1 where "c1 = c\<lparr>pen := color\<rparr>"
  have "uint (ctx_y c) + 1 < 65536"
    using Cons.prems(4) uint_pos [of "ry c"] of_nat_0_le_iff [of "length (l # ls)"] by linarith
  then have y: "uint (ctx_y c + 1) = uint (ctx_y c) + 1"
    using uint_pos [of "ctx_y c"] by (simp add: uint_word_ariths mod_pos_pos_trivial)
  have "drawn s (c1 # r) ms (gfx_pen color s')"
    unfolding c1_def by (rule drawn_pen [OF Cons.prems(1)])
  then have "returns (gfx_text t (gfx_pen color s')) (drawn s (text_ctx ALIGN_LEFT t c1 # r) ms)"
    unfolding gfx_text_def using Cons.prems t
    by (intro drawn_text) (auto simp: c1_def text_x_def has_flag_def align_defs)
  then have "returns (gfx_text t (gfx_pen color s') \<bind> draw_lines ls) (\<lambda>s''. \<exists>c'. drawn s (c' # r) ms s'')"
  proof (rule returns_bind)
    fix s1
    assume "drawn s (text_ctx ALIGN_LEFT t c1 # r) ms s1"
    then show "returns (draw_lines ls s1) (\<lambda>s''. \<exists>c'. drawn s (c' # r) ms s'')"
      by (rule Cons.IH) (use Cons.prems y in \<open>simp_all add: c1_def text_ctx_def\<close>)
  qed
  then show ?case
    by (simp add: l t(1))
qed

lemma drawn_status:
  assumes "drawn s (c # r) ms s'" "screen_ctx c" "context_idx s + int (length r) < 7" "status_ok st"
    "tp = 0 \<or> tp = 1"
  shows "returns (draw_status st tp s') (drawn s (c # r) ms)"
  unfolding draw_status_def
proof (rule returns_bind [OF drawn_begin_window [OF assms(1,3)]])
  fix s1
  assume d: "drawn s (window_ctx (ALIGN_MIDDLE OR align_info tp) 2 (- 2) 24 (of_nat STATUS_H) c # c # r) ms s1"
  have "list_all (\<lambda>(color, b). returns (c_string b) (\<lambda>t. length t \<le> 15)) (zip (colors st) (lines st))"
    "length (zip (colors st) (lines st)) = 4"
    using assms(4) by (auto simp: status_ok_def line_ok_def list_all_length)
  moreover have "tp = 0 \<or> tp = 1" "screen_ctx c"
    using assms by auto
  ultimately have "returns (draw_lines (zip (colors st) (lines st)) s1) (\<lambda>s''. \<exists>c'. drawn s (c' # c # r) ms s'')"
    by (intro drawn_lines [OF d]) (auto simp: layout_simps screen_ctx_def)
  then show "returns (do { s \<leftarrow> draw_lines (zip (colors st) (lines st)) s1; Some (gfx_end_window s) })
      (drawn s (c # r) ms)"
    by (rule returns_bind) (auto simp: gfx_end_window_def intro: drawn_pop)
qed

lemma drawn_cur: "drawn s (c # r) ms s' \<Longrightarrow> cur s' = c"
  by (erule drawnE)

lemma align_box_cur:
  "gfx_align_box align x y w h s = (rx (window_ctx align x y w h (cur s)), ry (window_ctx align x y w h (cur s)))"
  by (simp add: gfx_align_box_def window_ctx_def Let_def)

lemma drawn_bar:
  assumes "drawn s (c # r) ms s'" "screen_ctx c" "tp = 0 \<or> tp = 1"
    and "v = ALIGN_TOP \<or> v = ALIGN_MIDDLE \<or> v = ALIGN_BOTTOM"
  shows "returns (draw_bar (align_test tp OR v) s') (drawn s (c # r) ms)"
proof -
  obtain cur: "cur s' = c"
    using assms(1) by (rule drawnE)
  define w where "w = window_ctx (align_test tp OR v) 0 0 BAR_W BAR_H c"
  have "uint (rx c) + uint (rx w) + uint BAR_W \<le> 128" "uint (ry c) + uint (ry w) + uint BAR_H \<le> 64"
    using assms(2-4) by (auto simp: w_def screen_ctx_def layout_simps)
  then show ?thesis
    unfolding draw_bar_def align_box_cur cur prod.case w_def
    by (intro drawn_rect [OF assms(1)]) (simp_all add: BAR_W_def BAR_H_def)
qed

text \<open>A line of text in a window that lies on the page.\<close>

definition room :: "Context \<Rightarrow> nat \<Rightarrow> bool" where
  "room c n \<longleftrightarrow> uint (rx c) + uint (rw c) \<le> 128 \<and> uint (ry c) + uint (ctx_y c) + int n \<le> 63 \<and> \<not> sameline c"

lemma room_pen [simp]: "room (c\<lparr>pen := p\<rparr>) n = room c n"
  by (simp add: room_def)

lemma roomD:
  assumes "room c n"
  shows "uint (rx c) \<le> 128" "uint (rw c) \<le> 128" "uint (ry c) + uint (ctx_y c) + int n \<le> 63" "\<not> sameline c"
  using assms uint_pos [of "rx c"] uint_pos [of "rw c"] unfolding room_def by linarith+

lemma uint_add_small: "uint a + uint b < 65536 \<Longrightarrow> uint (a + b) = uint a + uint b" for a b :: u16
  using uint_add_lem [of a b] by simp

lemma room_down:
  assumes "room c (k + n)" "unat d = k"
  shows "room (c\<lparr>ctx_y := ctx_y c + d\<rparr>) n"
proof -
  have d: "uint d = int k"
    using assms(2) by (simp add: uint_nat)
  have "uint (ry c) + uint (ctx_y c) + int k + int n \<le> 63"
    using roomD(3) [OF assms(1)] by simp
  then have "uint (ctx_y c) + uint d < 65536"
    using d uint_pos [of "ry c"] of_nat_0_le_iff [of n] by linarith
  then have "uint (ctx_y c + d) = uint (ctx_y c) + int k"
    using d uint_add_small by metis
  then show ?thesis
    using assms(1) by (simp add: room_def)
qed

lemma room_text: "room c (Suc n) \<Longrightarrow> room (text_ctx align t c) n"
  using room_down [of c 1 n 1] by (simp add: text_ctx_def room_def)

lemma drawn_text_room:
  assumes "drawn s (c # r) ms s'" "room c (Suc n)"
    and "align = ALIGN_LEFT \<and> length t \<le> 60 \<or> align = ALIGN_CENTER \<and> int (length t) \<le> uint (rw c)"
  shows "returns (gfx_text_aligned align t s') (drawn s (text_ctx align t c # r) ms)"
proof (rule drawn_text [OF assms(1)])
  define k where "k = int (length t)"
  have "uint (text_x align t c) + k \<le> 128"
  proof (cases "align = ALIGN_LEFT")
    case False
    then have "k \<le> uint (rw c)" "text_x align t c = of_int ((uint (rw c) - k) div 2)"
      using assms(3) by (auto simp: text_x_def has_flag_def align_defs k_def)
    moreover have "uint (rw c) \<le> 128"
      by (rule roomD [OF assms(2)])
    ultimately show ?thesis
      by (simp add: unsigned_of_int take_bit_int_eq_self k_def)
  qed (use assms(3) in \<open>auto simp: text_x_def has_flag_def align_defs k_def\<close>)
  moreover have "uint (rx c) \<le> 128" "uint (ry c) + uint (ctx_y c) \<le> 62"
    using roomD [OF assms(2)] by simp_all
  ultimately show "(uint (ry c) + uint (ctx_y c)) * 128 + uint (text_x align t c) + uint (rx c) + int (length t) \<le> 8192"
    by (simp add: k_def)
qed (use assms(2) in \<open>simp add: room_def\<close>)

lemma drawn_text_left:
  "drawn s (c # r) ms s' \<Longrightarrow> room c (Suc n) \<Longrightarrow> length t \<le> 60 \<Longrightarrow>
    returns (gfx_text_aligned ALIGN_LEFT t s') (drawn s (text_ctx ALIGN_LEFT t c # r) ms)"
  by (rule drawn_text_room) auto

lemma drawn_text_center:
  "drawn s (c # r) ms s' \<Longrightarrow> room c (Suc n) \<Longrightarrow> int (length t) \<le> uint (rw c) \<Longrightarrow>
    returns (gfx_text_aligned ALIGN_CENTER t s') (drawn s (text_ctx ALIGN_CENTER t c # r) ms)"
  by (rule drawn_text_room) auto

lemma drawn_textf_room:
  assumes "drawn s (c # r) ms s'" "room c (Suc n)" "format_out 0 fmt args = Some (t, [])" "length t < 40" "NUL \<notin> set t"
  shows "returns (gfx_textf_aligned ALIGN_LEFT fmt args s') (drawn s (text_ctx ALIGN_LEFT t c # r) ms)"
  by (rule drawn_textf [OF assms(1) roomD(4) [OF assms(2)] assms(3-5)])
    (use assms(4) roomD [OF assms(2)] in \<open>simp add: text_x_def has_flag_def align_defs\<close>)

lemma mode_text:
  "format_out 0 ''Mode: %s'' [VStr (Some t)] = Some (''Mode: '' @ t, [])"
  by (simp add: format_out_lit format_out_conv [OF conversion_out_s] format_out_Nil)

lemma drawn_mode_window:
  assumes "drawn s (c # r) ms s'" "room c 2" "length t \<le> 31" "NUL \<notin> set t"
  shows "returns (do {
      s \<leftarrow> gfx_textf ''Mode: %s'' [VStr (Some t)] (gfx_pen TEXT_BLUE s');
      gfx_text ''Press START for menu.'' (gfx_pen TEXT_DARK_BLUE s) }) (\<lambda>s''. \<exists>c'. drawn s (c' # r) ms s'')"
  unfolding gfx_textf_def gfx_text_def
proof (rule returns_bind [OF drawn_textf_room [OF drawn_pen [OF assms(1)] _ mode_text]])
  show "room (c\<lparr>pen := TEXT_BLUE\<rparr>) (Suc 1)" "length (''Mode: '' @ t) < 40" "NUL \<notin> set (''Mode: '' @ t)"
    using assms(2-4) by (simp_all add: NUL_def numeral_2_eq_2)
  fix s1
  assume "drawn s (text_ctx ALIGN_LEFT (''Mode: '' @ t) (c\<lparr>pen := TEXT_BLUE\<rparr>) # r) ms s1"
  moreover have "room (text_ctx ALIGN_LEFT (''Mode: '' @ t) (c\<lparr>pen := TEXT_BLUE\<rparr>)) 1"
    using assms(2) by (intro room_text) (simp add: numeral_2_eq_2)
  ultimately show "returns (gfx_text_aligned ALIGN_LEFT ''Press START for menu.'' (gfx_pen TEXT_DARK_BLUE s1))
      (\<lambda>s''. \<exists>c'. drawn s (c' # r) ms s'')"
    by (intro returnsI [OF drawn_text_left [OF drawn_pen]]) auto
qed

lemma drawn_picture:
  assumes "drawn s (c # r) ms s'" "screen_ctx c" "tp = 0 \<or> tp = 1"
  shows "returns (case gfx_align_box (align_info tp OR ALIGN_TOP) 2 2 4 4 s' of (bx, by) \<Rightarrow>
      if b then gfx_image i 0x40 bx by 4 4 s' else gfx_image j 0x40 bx by 4 4 s') (drawn s (c # r) ms)"
proof -
  define w where "w = window_ctx (align_info tp OR ALIGN_TOP) 2 2 4 4 c"
  have w: "uint (rx c) + uint (rx w) + uint (4 :: u16) \<le> 128" "uint (ry c) + uint (ry w) + uint (4 :: u16) \<le> 64"
    using assms(2,3) by (auto simp: w_def screen_ctx_def layout_simps)
  show ?thesis
    unfolding align_box_cur drawn_cur [OF assms(1)] prod.case w_def [symmetric]
    by (intro returns_if drawn_image [OF assms(1)] w)
qed

lemma drawn_sampling:
  assumes "drawn s (c # r) ms s'" "screen_ctx c" "context_idx s + int (length r) < 7" "status_ok st"
    "tp = 0 \<or> tp = 1" and desc: "c_string desc = Some t" "length t \<le> 31"
  shows "returns (draw_sampling st desc tp rand s') (drawn s (c\<lparr>pen := 0x80\<rparr> # r) ms)"
proof -
  define c1 where "c1 = c\<lparr>pen := 0x80\<rparr>"
  have c1: "screen_ctx c1" "c1 = c\<lparr>pen := TEXT_DARK_GRAY, pen := 0x80\<rparr>"
    using assms(2) by (simp_all add: c1_def)
  have box: "box_ok c" "3 \<le> rh c" "3 \<le> rw c"
    using assms(2) by (auto simp: screen_ctx_def box_ok_def)
  have w: "room (window_ctx (ALIGN_BOTTOM OR align_info tp) 2 5 24 2 c1) 2"
    using c1(1) assms(5) by (auto simp: room_def screen_ctx_def layout_simps)
  have t: "NUL \<notin> set t"
    by (rule c_string_no_NUL [OF desc(1)])
  obtain s1 where s1: "gfx_clear s' = Some s1" "drawn s (c # r) ms s1"
    using drawn_clear [OF assms(1) box(1)] by (rule returnsE)
  obtain s2 where s2: "gfx_display_border (gfx_pen TEXT_DARK_GRAY s1) = Some s2"
    "drawn s (c\<lparr>pen := TEXT_DARK_GRAY\<rparr> # r) ms s2"
    by (rule drawn_border [OF drawn_pen [OF s1(2)], THEN returnsE]) (use box in \<open>auto simp: box_ok_def\<close>)
  have p2: "drawn s (c1 # r) ms (gfx_pen 0x80 s2)"
    unfolding c1(2) by (rule drawn_pen [OF s2(2)])
  note bar = drawn_bar [OF _ c1(1) assms(5)]
  obtain s3 where s3: "draw_bar (align_test tp OR ALIGN_TOP) (gfx_pen 0x80 s2) = Some s3" "drawn s (c1 # r) ms s3"
    using bar [OF p2, of ALIGN_TOP] by (auto elim: returnsE)
  obtain s4 where s4: "draw_bar (align_test tp OR ALIGN_MIDDLE) s3 = Some s4" "drawn s (c1 # r) ms s4"
    using bar [OF s3(2), of ALIGN_MIDDLE] by (auto elim: returnsE)
  obtain s5 where s5: "draw_bar (align_test tp OR ALIGN_BOTTOM) s4 = Some s5" "drawn s (c1 # r) ms s5"
    using bar [OF s4(2), of ALIGN_BOTTOM] by (auto elim: returnsE)
  obtain s6 where s6: "(case gfx_align_box (align_info tp OR ALIGN_TOP) 2 2 4 4 s5 of (bx, by) \<Rightarrow>
      if rand AND 0xff33 = 0 then gfx_image 144 0x40 bx by 4 4 s5
      else gfx_image 0x80 0x40 bx by 4 4 s5) = Some s6" "drawn s (c1 # r) ms s6"
    using drawn_picture [OF s5(2) c1(1) assms(5)] by (rule returnsE)
  obtain bx1 by1 where box6: "gfx_align_box (align_info tp OR ALIGN_TOP) 2 2 4 4 s5 = (bx1, by1)"
    by (cases "gfx_align_box (align_info tp OR ALIGN_TOP) 2 2 4 4 s5")
  obtain s7 where s7: "gfx_begin_window (ALIGN_BOTTOM OR align_info tp) 2 5 24 2 0 s6 = Some s7"
    "drawn s (window_ctx (ALIGN_BOTTOM OR align_info tp) 2 5 24 2 c1 # c1 # r) ms s7"
    using drawn_begin_window [OF s6(2) assms(3)] by (rule returnsE)
  obtain s8 s9 c2 where s8: "gfx_textf ''Mode: %s'' [VStr (Some t)] (gfx_pen TEXT_BLUE s7) = Some s8"
    "gfx_text ''Press START for menu.'' (gfx_pen TEXT_DARK_BLUE s8) = Some s9" "drawn s (c2 # c1 # r) ms s9"
    using drawn_mode_window [OF s7(2) w desc(2) t]
    by (auto simp: returns_def split: Option.bind_splits)
  have "returns (draw_status st tp (gfx_end_window s9)) (drawn s (c1 # r) ms)"
    unfolding gfx_end_window_def by (rule drawn_status [OF drawn_pop [OF s8(3)] c1(1) assms(3,4,5)])
  then show ?thesis
    using s6(1) by (simp add: draw_sampling_def s1(1) s2(1) s3(1) s4(1) s5(1) s7(1) s8(1,2) desc(1) c1_def
        box6 split: if_splits)
qed

lemma drawn_no_sensor:
  assumes "drawn s (c # r) ms s'" "screen_ctx c" "context_idx s + int (length r) < 7"
  shows "returns (draw_no_sensor s') (drawn s (c\<lparr>pen := TEXT_RED\<rparr> # r) ms)"
proof -
  have box: "box_ok c"
    using assms(2) by (auto simp: screen_ctx_def box_ok_def)
  define c1 where "c1 = c\<lparr>pen := TEXT_RED\<rparr>"
  define w where "w = framed 1 (window_ctx (ALIGN_CENTER OR ALIGN_MIDDLE) 0 0 34 6 c1)"
  have w: "room w 4" "rw w = 32"
    using assms(2) by (auto simp: w_def c1_def room_def screen_ctx_def layout_simps)
  obtain s1 where s1: "gfx_clear s' = Some s1" "drawn s (c # r) ms s1"
    using drawn_clear [OF assms(1) box] by (rule returnsE)
  obtain s2 where s2: "gfx_begin_window (ALIGN_CENTER OR ALIGN_MIDDLE) 0 0 34 6 1 (gfx_pen TEXT_RED s1) = Some s2"
    "drawn s (w # c1 # r) ms s2"
    unfolding w_def c1_def
    using drawn_begin_frame [OF drawn_pen [OF s1(2), where p = TEXT_RED] assms(3), where align = "ALIGN_CENTER OR ALIGN_MIDDLE" and
        x = 0 and y = 0 and w = 34 and h = 6 and n = 1] assms(2)
    by (auto simp: screen_ctx_def layout_simps word_sless_alt returns_def)
  have r2: "room w (Suc 3)"
    using w(1) by (simp add: numeral_eq_Suc)
  obtain s3 where s3: "gfx_text_aligned ALIGN_CENTER ''No sensor detected!'' s2 = Some s3"
    "drawn s (text_ctx ALIGN_CENTER ''No sensor detected!'' w # c1 # r) ms s3"
    using drawn_text_center [OF s2(2) r2, of "''No sensor detected!''"] w(2) by (auto simp: returns_def)
  define w1 where "w1 = (text_ctx ALIGN_CENTER ''No sensor detected!'' w)\<lparr>ctx_y := ctx_y (text_ctx ALIGN_CENTER ''No sensor detected!'' w) + 1,
    pen := TEXT_ORANGE\<rparr>"
  have r3: "room w1 (Suc 1)"
    unfolding w1_def using room_down [of "text_ctx ALIGN_CENTER ''No sensor detected!'' w" 1 "Suc 1" 1] room_text [OF r2]
    by (simp add: numeral_eq_Suc)
  have d3: "drawn s (w1 # c1 # r) ms (gfx_pen TEXT_ORANGE (gfx_newline 1 s3))"
    unfolding w1_def using drawn_pen [OF drawn_newline [OF s3(2), of 1], of TEXT_ORANGE] by simp
  obtain s4 where s4: "gfx_text_aligned ALIGN_LEFT ''Connect your MiSTer Laggy sensor''
      (gfx_pen TEXT_ORANGE (gfx_newline 1 s3)) = Some s4"
    "drawn s (text_ctx ALIGN_LEFT ''Connect your MiSTer Laggy sensor'' w1 # c1 # r) ms s4"
    using drawn_text_left [OF d3 r3, of "''Connect your MiSTer Laggy sensor''"] by (auto simp: returns_def)
  obtain s5 w2 where s5: "gfx_text_aligned ALIGN_LEFT ''to the User Port.'' s4 = Some s5"
    "drawn s (w2 # c1 # r) ms s5"
    using drawn_text_left [OF s4(2), of 0 "''to the User Port.''"] room_text [OF r3] by (auto simp: returns_def)
  show ?thesis
    using drawn_pop [OF s5(2)]
    by (simp add: draw_no_sensor_def s1(1) s2(1) s3(1) s4(1) s5(1) gfx_end_window_def c1_def)
qed

lemma version_text:
  "format_out 0 ''MiSTer Laggy %s/%06u'' [VStr (Some FIRMWARE_VERSION), VInt v] =
     Some (''MiSTer Laggy 1.3/'' @ replicate (6 - length (dec (unat v))) CHR ''0'' @ dec (unat v), [])"
  using conversion_out_06u [of _ "[]" v "[]"]
  by (simp add: format_out_lit format_out_conv [OF conversion_out_s] format_out_conv format_out_Nil FIRMWARE_VERSION_def)

lemma drawn_version:
  assumes "drawn s (c # r) ms s'" "screen_ctx c" "context_idx s + int (length r) < 7" "tp = 0 \<or> tp = 1"
  shows "returns (draw_version tp v s') (drawn s (c\<lparr>pen := TEXT_DARK\<rparr> # r) ms)"
proof -
  define c1 where "c1 = c\<lparr>pen := TEXT_DARK\<rparr>"
  define w where "w = window_ctx (ALIGN_BOTTOM OR align_info tp) 2 2 24 1 c1"
  have w: "room w (Suc 0)"
    using assms(2,4) by (auto simp: w_def c1_def room_def screen_ctx_def layout_simps)
  obtain s1 where s1: "gfx_begin_window (ALIGN_BOTTOM OR align_info tp) 2 2 24 1 0 (gfx_pen TEXT_DARK s') = Some s1"
    "drawn s (w # c1 # r) ms s1"
    unfolding w_def c1_def using drawn_begin_window [OF drawn_pen [OF assms(1)] assms(3)] by (rule returnsE)
  define t where "t = ''MiSTer Laggy 1.3/'' @ replicate (6 - length (dec (unat v))) CHR ''0'' @ dec (unat v)"
  have t: "length t < 40" "NUL \<notin> set t"
    using length_dec_u32 [of v] NUL_not_in_dec [of "unat v"] by (auto simp: t_def NUL_def)
  obtain s2 where s2: "gfx_textf_aligned ALIGN_LEFT ''MiSTer Laggy %s/%06u'' [VStr (Some FIRMWARE_VERSION), VInt v] s1 = Some s2"
    "drawn s (text_ctx ALIGN_LEFT t w # c1 # r) ms s2"
    using drawn_textf_room [OF s1(2) w version_text [of v, folded t_def] t] by (rule returnsE)
  show ?thesis
    using drawn_pop [OF s2(2)] by (simp add: draw_version_def s1(1) s2(1) gfx_end_window_def c1_def)
qed

subsection \<open>The random numbers\<close>

lemma push_bit_out: "32 \<le> n \<Longrightarrow> push_bit n x = 0" for x :: u32
  by (rule bit_word_eqI) (auto simp: bit_simps)

lemma drop_bit_out: "32 \<le> n \<Longrightarrow> drop_bit n x = 0" for x :: u32
  by (rule bit_word_eqI) (auto simp: bit_simps dest: bit_imp_le_length)

text \<open>The steps of the generator undone, in the other order.\<close>

definition unrand32 :: "u32 \<Rightarrow> u32" where
  "unrand32 y =
     (let x = fold (\<lambda>k x. x XOR push_bit (5 * k) y) [1..<7] y;
          x = x XOR drop_bit 17 x
      in x XOR push_bit 13 x XOR push_bit 26 x)"

lemma undo_5: "fold (\<lambda>k z. z XOR push_bit (5 * k) (x XOR push_bit 5 x)) [1..<7] (x XOR push_bit 5 x) = x" for x :: u32
  by (simp add: upt_rec push_bit_xor push_bit_push_bit push_bit_out ac_simps)

lemma undo_17: "(x XOR drop_bit 17 x) XOR drop_bit 17 (x XOR drop_bit 17 x) = x" for x :: u32
  by (simp add: drop_bit_xor drop_bit_drop_bit drop_bit_out ac_simps)

lemma undo_13: "(x XOR push_bit 13 x) XOR push_bit 13 (x XOR push_bit 13 x) XOR push_bit 26 (x XOR push_bit 13 x) = x" for x :: u32
  by (simp add: push_bit_xor push_bit_push_bit push_bit_out ac_simps)

lemma unrand32_rand32: "unrand32 (rand32 x) = x"
  unfolding unrand32_def rand32_def Let_def undo_5 undo_17 undo_13 ..

lemma rand32_unrand32: "rand32 (unrand32 y) = y"
  using unrand32_rand32
  by (metis bij_def finite_UNIV_inj_surj inj_on_def surj_def finite)

lemma rand32_0: "rand32 0 = 0"
  by (simp add: rand32_def)

lemma rand32_nonzero: "rand32 x = 0 \<longleftrightarrow> x = 0"
  by (metis rand32_0 unrand32_rand32)

text \<open>C27. The generator loses no state: its step is a permutation of the 32 bit words, undone by the
  steps in the other order, and zero, where it would stay for ever, is reached from zero only.\<close>

theorem rand32_permutation: "unrand32 (rand32 x) = x \<and> rand32 (unrand32 y) = y \<and> (rand32 x = 0 \<longleftrightarrow> x = 0)"
  by (simp add: unrand32_rand32 rand32_unrand32 rand32_nonzero)

end
