(* ===== verification/Firmware.thy ===== *)
theory Firmware
  imports Interrupts Screens
begin

text \<open>
  The program (main.c): its variables and devices as one record, the configuration menu, a frame of
  sampling, the wait for the vertical blank, the body of the main loop and what precedes it; and the
  lemmas that drawing a frame of each kind returns and keeps the screen well formed.
\<close>

subsection \<open>State\<close>

datatype MainMode = MODE_NO_SENSOR | MODE_SAMPLING | MODE_MENU

text \<open>The static variables of draw_menu.\<close>

record menu_state =
  mode_idx :: int
  refresh_idx :: int
  aspect_idx :: int
  applied_mode_idx :: int
  applied_refresh_idx :: int
  applied_aspect_idx :: int

text \<open>The variables of the program and the devices it writes: the sampling variables, the graphics
  with the gamepad, the video timing, the bus to the HPS, the interrupt sources, the user port's output,
  and the local variables of main.\<close>

record firmware =
  smp :: sampler
  scr :: gfx
  crtc :: CRTC
  hps :: "bus list"
  status :: StatusInfo
  video_mode_desc :: "char list"
  test_position :: int
  rand_state :: u32
  menu :: menu_state
  vblank_count :: u32
  int_ctrl :: u16
  user_port :: u16
  core_version :: u32
  main_mode :: MainMode
  new_mode :: bool

subsection \<open>The menu\<close>

definition reset_menu :: "menu_state \<Rightarrow> menu_state" where
  "reset_menu m =
     (if applied_mode_idx m \<ge> 0
      then m\<lparr>mode_idx := applied_mode_idx m, refresh_idx := applied_refresh_idx m,
             aspect_idx := applied_aspect_idx m\<rparr>
      else m\<lparr>mode_idx := 7, refresh_idx := 12, aspect_idx := 0\<rparr>)"

definition menu_changed :: "menu_state \<Rightarrow> bool" where
  "menu_changed m \<longleftrightarrow> mode_idx m \<noteq> applied_mode_idx m \<or> refresh_idx m \<noteq> applied_refresh_idx m \<or>
     aspect_idx m \<noteq> applied_aspect_idx m"

text \<open>What the button Apply Video Changes does.\<close>

definition apply_video :: "firmware \<Rightarrow> firmware option" where
  "apply_video f =
     do {
       let m = menu f;
       res \<leftarrow> array_get hdmi_resolutions (mode_idx m);
       hz \<leftarrow> array_get hdmi_refresh_rates (refresh_idx m);
       let wide = (res_wide res \<and> aspect_idx m = 1);
       let f = f\<lparr>int_ctrl := INT2_CTRL INT_SRC_VBLANK OR INT4_CTRL (INT_SRC_HDMI_VBLANK OR INT_INVERT) OR
                   INT6_CTRL INT_SRC_USERIO\<rparr>;
       (g, r) \<leftarrow> gfx_set_240p (to_float (of_int hz)) wide (scr f, crtc f);
       bs \<leftarrow> hdmi_set_mode (res_width res) (res_height res) (to_float (of_int hz));
       let m = m\<lparr>applied_mode_idx := mode_idx m, applied_refresh_idx := refresh_idx m,
                 applied_aspect_idx := aspect_idx m\<rparr>;
       str1 \<leftarrow> resolution_to_string (mode_idx m);
       str2 \<leftarrow> refresh_to_string (refresh_idx m);
       (_, desc) \<leftarrow> snprintf_buf (video_mode_desc f) 32 ''%s @ %s'' [VStr (Some str1), VStr (Some str2)];
       Some (f\<lparr>scr := g, crtc := r, hps := hps f @ bs, menu := m, video_mode_desc := desc\<rparr>)
     }"

text \<open>The button is drawn when the menu differs from the applied mode; the result is whether the menu
  closes.\<close>

definition apply_button :: "firmware \<Rightarrow> (bool \<times> firmware) option" where
  "apply_button f =
     (if menu_changed (menu f)
      then do {
        (pressed, g) \<leftarrow> gfx_menuitem_button ''Apply Video Changes'' (scr f);
        if pressed then map_option (Pair True) (apply_video (f\<lparr>scr := g\<rparr>)) else Some (False, f\<lparr>scr := g\<rparr>)
      }
      else Some (False, f))"

definition draw_menu :: "bool \<Rightarrow> firmware \<Rightarrow> (bool \<times> firmware) option" where
  "draw_menu reset f =
     do {
       let m = (if reset then reset_menu (menu f) else menu f);
       g \<leftarrow> gfx_clear (scr f);
       g \<leftarrow> gfx_begin_menu ''CONFIG'' 28 18 0 g;
       (_, i, g) \<leftarrow> gfx_menuitem_select_func ''Resolution'' (int (length hdmi_resolutions))
                     resolution_to_string (mode_idx m) g;
       (_, j, g) \<leftarrow> gfx_menuitem_select_func ''Refresh Rate'' (int (length hdmi_refresh_rates))
                     refresh_to_string (refresh_idx m) g;
       res \<leftarrow> array_get hdmi_resolutions i;
       (k, g) \<leftarrow>
         (if res_wide res
          then map_option snd (gfx_menuitem_select ''Aspect Ratio'' [''4:3'', ''16:9''] 2 (aspect_idx m) g)
          else Some (aspect_idx m, gfx_newline 2 g));
       let g = gfx_newline 1 g;
       let m = m\<lparr>mode_idx := i, refresh_idx := j, aspect_idx := k\<rparr>;
       (close_menu, f) \<leftarrow> apply_button (f\<lparr>menu := m, scr := g\<rparr>);
       (_, tp, g) \<leftarrow> gfx_menuitem_select ''Test Position'' [''Left'', ''Right''] 2 (test_position f)
                      (gfx_newline 2 (scr f));
       let g = gfx_end_menu g;
       let close_menu = (close_menu \<or> has_flag (input_pressed g) (INPUT_MENU OR INPUT_BACK));
       Some (\<not> close_menu, f\<lparr>scr := g, test_position := tp\<rparr>)
     }"

subsection \<open>Sampling\<close>

definition do_sampling :: "firmware \<Rightarrow> firmware option" where
  "do_sampling f =
     do {
       let s = do_sampling_switch (smp f);
       let x = rand32 (rand_state f);
       g \<leftarrow> draw_sampling (status f) (video_mode_desc f) (test_position f) x (scr f);
       (s, st) \<leftarrow> show_outcome (s, status f);
       Some (f\<lparr>smp := s, scr := g, status := st, rand_state := x\<rparr>)
     }"

subsection \<open>The main loop\<close>

text \<open>Time passes and an interrupt is served.\<close>

definition event :: "u32 \<times> nat \<Rightarrow> sampler \<Rightarrow> sampler" where
  "event e s = (case e of (dt, n) \<Rightarrow> interrupt n (s\<lparr>ticks := ticks s + dt\<rparr>))"

text \<open>The wait ends when the interrupt count has moved; it consumes the interrupts that come until
  then and leaves the later ones. None is a wait that does not end.\<close>

fun wait_vblank :: "(u32 \<times> nat) list \<Rightarrow> u32 \<Rightarrow> sampler \<Rightarrow> ((u32 \<times> nat) list \<times> u32 \<times> sampler) option" where
  "wait_vblank [] vc s = (if vc \<noteq> vblank_int_count s then Some ([], vblank_int_count s, s) else None)"
| "wait_vblank (e # es) vc s =
     (if vc \<noteq> vblank_int_count s then Some (e # es, vblank_int_count s, s)
      else wait_vblank es vc (event e s))"

text \<open>What the devices do in one frame: the interrupts, the gamepad port, the user port, and the
  values of the clock generator's busy register.\<close>

record frame_input =
  events :: "(u32 \<times> nat) list"
  gamepad_port :: u16
  user_io :: u16
  busy :: "u16 list"

text \<open>What the main loop does in each mode; the argument is the value of the user port.\<close>

definition frame_mode :: "u16 \<Rightarrow> firmware \<Rightarrow> firmware option" where
  "frame_mode io f =
     (case main_mode f of
        MODE_SAMPLING \<Rightarrow> do {
          f \<leftarrow> do_sampling (f\<lparr>new_mode := False\<rparr>);
          let f = (if has_flag (input_pressed (scr f)) INPUT_MENU
                   then f\<lparr>main_mode := MODE_MENU, new_mode := True\<rparr> else f);
          Some (if has_flag io 1 then f\<lparr>main_mode := MODE_NO_SENSOR, new_mode := True\<rparr> else f)
        }
      | MODE_MENU \<Rightarrow> do {
          (open, f) \<leftarrow> draw_menu (new_mode f) f;
          Some (if \<not> open then f\<lparr>main_mode := MODE_SAMPLING, new_mode := True\<rparr>
                else f\<lparr>new_mode := False\<rparr>)
        }
      | MODE_NO_SENSOR \<Rightarrow> do {
          let f = (if \<not> has_flag io 1 then f\<lparr>main_mode := MODE_SAMPLING, new_mode := True\<rparr> else f);
          g \<leftarrow> draw_no_sensor (scr f);
          Some (f\<lparr>scr := g\<rparr>)
        })"

text \<open>One turn of the main loop. The interrupts that come after the wait are served at its end; the
  interleaving of interrupts with the sampling code has a theory of its own.\<close>

definition main_frame :: "frame_input \<Rightarrow> firmware \<Rightarrow> firmware option" where
  "main_frame e f =
     do {
       (late, vc, s) \<leftarrow> wait_vblank (events e) (vblank_count f) (smp f);
       g \<leftarrow> gfx_pageflip (scr f);
       f \<leftarrow> frame_mode (user_io e)
             (f\<lparr>smp := s, vblank_count := vc, scr := input_poll (gamepad_port e) g,
                crtc := (crtc f)\<lparr>pll_io := busy e\<rparr>\<rparr>);
       g \<leftarrow> draw_version (test_position f) (core_version f) (scr f);
       Some (f\<lparr>scr := g, smp := fold event late (smp f)\<rparr>)
     }"

fun main_loop :: "frame_input list \<Rightarrow> firmware \<Rightarrow> firmware option" where
  "main_loop [] f = Some f"
| "main_loop (e # es) f = do { f \<leftarrow> main_frame e f; main_loop es f }"

text \<open>The variables as the loader leaves them; the clock, the palette, the tile memory, the video
  registers and the core's version are what the devices hold. Null pointers into tile memory are offsets
  from its base, too.\<close>

definition firmware_start :: "clock_hw \<Rightarrow> (nat \<Rightarrow> u16) \<Rightarrow> (int \<Rightarrow> u16) \<Rightarrow> CRTC \<Rightarrow> u32 \<Rightarrow> firmware" where
  "firmware_start clk pal mem vid ver =
     \<lparr>smp = \<lparr>sr = sr clk, ticks = ticks clk, ticks_latch = ticks_latch clk, vblank_int_count = 0,
        sample_seq = 0, frame_seq = 0, sensor_seq = 0, frame_ticks = 0, sensor_ticks = 0,
        state = ST_CLEAR, state_start_ticks = 0, samples = replicate 16 0, latest_sample = 0,
        sample_idx = 0, sample_status = NO_SAMPLE, palette_ram = pal\<rparr>,
      scr = \<lparr>gamepad_prev = 0, gamepad = 0, gamepad_pressed = 0, gamepad_released = 0,
        tile_ctrl = \<lparr>hofs = 0, vofs = 0\<rparr>, page_tile_ctrl = replicate 2 \<lparr>hofs = 0, vofs = 0\<rparr>,
        page_vram = replicate 2 (- 0x480000), vram = 0, page_front = 0,
        contexts = replicate 8 \<lparr>pen = 0, sameline = False, rx = 0, ry = 0, rw = 0, rh = 0, ctx_y = 0, prevx = 0,
          highlighted = 0, menuctx = None\<rparr>,
        context_idx = 0, ctx = 0, tiles = mem, menus = (\<lambda>_. INIT_MENU_CONTEXT)\<rparr>,
      crtc = vid, hps = [], status = status_init, video_mode_desc = replicate 32 NUL, test_position = 0,
      rand_state = 0xdeadbeef,
      menu = \<lparr>mode_idx = 0, refresh_idx = 0, aspect_idx = 0, applied_mode_idx = -1, applied_refresh_idx = -1,
        applied_aspect_idx = -1\<rparr>,
      vblank_count = 0, int_ctrl = 0, user_port = 0, core_version = ver, main_mode = MODE_SAMPLING,
      new_mode = False\<rparr>"

text \<open>main up to its loop. strcpy stores the text and its terminator.\<close>

definition strcpy_buf :: "char list \<Rightarrow> char list \<Rightarrow> char list" where
  "strcpy_buf b str = str @ NUL # drop (Suc (length str)) b"

definition main_init :: "u16 list \<Rightarrow> firmware \<Rightarrow> firmware option" where
  "main_init polls f =
     do {
       let f = f\<lparr>main_mode := MODE_SAMPLING, video_mode_desc := strcpy_buf (video_mode_desc f) ''MiSTer Default'',
                 smp := set_palette (smp f), user_port := 0xffff,
                 int_ctrl := INT2_CTRL INT_SRC_VBLANK OR INT4_CTRL (INT_SRC_VBLANK OR INT_INVERT) OR
                   INT6_CTRL INT_SRC_USERIO,
                 status := status_init\<rparr>;
       (g, r) \<leftarrow> gfx_set_240p (to_float 60) False (scr f, (crtc f)\<lparr>pll_io := polls\<rparr>);
       Some (f\<lparr>scr := g, crtc := r, smp := enable_interrupts (smp f), new_mode := True\<rparr>)
     }"

definition main_program :: "u16 list \<Rightarrow> frame_input list \<Rightarrow> firmware \<Rightarrow> firmware option" where
  "main_program polls es f = do { f \<leftarrow> main_init polls f; main_loop es f }"

subsection \<open>Sampling in a frame\<close>

lemma event_frame [simp]:
  "samples (event e s) = samples s" "sample_idx (event e s) = sample_idx s"
  "sample_status (event e s) = sample_status s"
  by (cases e; simp add: event_def interrupt_def handler_defs Let_def)+

lemma fold_event_frame [simp]:
  "samples (fold event es s) = samples s" "sample_idx (fold event es s) = sample_idx s"
  "sample_status (fold event es s) = sample_status s"
  by (induction es arbitrary: s) simp_all

lemma event_vblank: "snd e = 2 \<Longrightarrow> vblank_int_count (event e s) = vblank_int_count s + 1"
  by (cases e) (simp add: event_def interrupt_def handler_defs)

lemma wait_vblank_returns:
  assumes "\<exists>e \<in> set es. snd e = 2"
  shows "returns (wait_vblank es vc s) (\<lambda>(late, vc', s'). samples s' = samples s \<and>
    sample_idx s' = sample_idx s \<and> sample_status s' = sample_status s)"
  using assms
proof (induction es vc s rule: wait_vblank.induct)
  case (2 e es vc s)
  show ?case
  proof (cases "vc = vblank_int_count s")
    case True
    show ?thesis
    proof (cases "snd e = 2")
      case e: True
      then have "vc \<noteq> vblank_int_count (event e s)"
        using True by (simp add: event_vblank)
      then show ?thesis
        using True by (cases es) simp_all
    qed (use 2 True in \<open>auto simp: returns_def\<close>)
  qed simp
qed simp

lemma switch_samples [simp]: "length (samples (do_sampling_switch s)) = length (samples s)"
  by (simp add: do_sampling_switch_def sampler_defs Let_def split: State.splits)

lemma switch_sample_idx:
  assumes "sample_status s = NO_SAMPLE"
  shows "sample_idx (do_sampling_switch s) = sample_idx s \<and> sample_status (do_sampling_switch s) \<noteq> NEW_SAMPLE \<or>
    sample_idx (do_sampling_switch s) = sample_idx s + 1"
  using assms by (simp add: do_sampling_switch_def sampler_defs Let_def split: State.splits)

lemma history_len_0: "history_len s = 0 \<longleftrightarrow> sample_idx s = 0"
  by (auto simp: history_len_def HISTORY_SIZE_def unat_eq_0)

subsection \<open>The screen\<close>

text \<open>The graphics between two operations of the main loop: the pages are laid out, the front
  page is the one on screen and the other one is drawn, the current context is one of the two lowest, and it and the root context have the size of a screen.\<close>

definition scr_ok :: "gfx \<Rightarrow> bool" where
  "scr_ok g \<longleftrightarrow> gfx_wf g \<and> pages_ok g \<and> page_regs g \<and> context_idx g \<le> 1 \<and>
     screen_ctx (cur g) \<and> screen_ctx (contexts g ! 0)"

text \<open>Drawing that leaves the pages as they are and everything but the back page alone.\<close>

definition back_page_only :: "gfx \<Rightarrow> gfx \<Rightarrow> bool" where
  "back_page_only g g' \<longleftrightarrow> vram g' = vram g \<and> page_front g' = page_front g \<and>
     gamepad_pressed g' = gamepad_pressed g \<and>
     (\<forall>a. \<not> (vram g \<le> a \<and> a < vram g + 8192) \<longrightarrow> tiles g' a = tiles g a)"

lemma drawn_pages:
  assumes "drawn g (c # r) ms g'" "pages_ok g"
  shows "pages_ok g'" "back_page_only g g'" "i < ctx g \<Longrightarrow> contexts g' ! i = contexts g ! i"
    "page_regs g' = page_regs g"
  using assms unfolding drawn_def pages_ok_def back_page_only_def page_regs_def by auto

lemma drawn_scr_ok:
  assumes "drawn g [c] ms g'" "scr_ok g" "screen_ctx c"
  shows "scr_ok g' \<and> back_page_only g g'"
proof -
  obtain cur: "cur g' = c" "gfx_wf g'" "context_idx g' = context_idx g" "ctx g' = ctx g"
    using assms(1) by (rule drawnE) simp
  have "screen_ctx (contexts g' ! 0)"
  proof (cases "ctx g = 0")
    case True
    then show ?thesis
      using cur assms(3) by (simp add: cur_def)
  next
    case False
    then show ?thesis
      using drawn_pages(3) [OF assms(1), of 0] assms(2) by (simp add: scr_ok_def)
  qed
  then show ?thesis
    using cur assms drawn_pages [OF assms(1)] by (simp add: scr_ok_def)
qed

lemma drawn_start: "scr_ok g \<Longrightarrow> drawn g [cur g] (menus g) g" "scr_ok g \<Longrightarrow> context_idx g + int (length []) < 7"
  by (simp_all add: scr_ok_def drawn_refl)

lemma draw_scr_ok:
  assumes "scr_ok g" "returns x (drawn g [c] ms)" "screen_ctx c"
  shows "returns x (\<lambda>g'. scr_ok g' \<and> back_page_only g g')"
  using assms(2) by (rule returnsI) (rule drawn_scr_ok [OF _ assms(1,3)])

lemma sampling_scr_ok:
  assumes "scr_ok g" "status_ok st" "tp = 0 \<or> tp = 1" "returns (c_string desc) (\<lambda>t. length t \<le> 31)"
  shows "returns (draw_sampling st desc tp x g) (\<lambda>g'. scr_ok g' \<and> back_page_only g g')"
proof -
  obtain t where t: "c_string desc = Some t" "length t \<le> 31"
    using assms(4) by (rule returnsE)
  have c: "screen_ctx (cur g)"
    using assms(1) by (simp add: scr_ok_def)
  show ?thesis
    by (rule draw_scr_ok [OF assms(1) drawn_sampling [OF drawn_start(1) c drawn_start(2)]])
      (use assms t c in simp_all)
qed

lemma no_sensor_scr_ok: "scr_ok g \<Longrightarrow> returns (draw_no_sensor g) (\<lambda>g'. scr_ok g' \<and> back_page_only g g')"
  by (rule draw_scr_ok [OF _ drawn_no_sensor [OF drawn_start(1) _ drawn_start(2)]]) (auto simp: scr_ok_def)

lemma version_scr_ok:
  "scr_ok g \<Longrightarrow> tp = 0 \<or> tp = 1 \<Longrightarrow> returns (draw_version tp v g) (\<lambda>g'. scr_ok g' \<and> back_page_only g g')"
  by (rule draw_scr_ok [OF _ drawn_version [OF drawn_start(1) _ drawn_start(2)]]) (auto simp: scr_ok_def)

end
