(* ===== verification/Config_Menu.thy ===== *)
theory Config_Menu
  imports Firmware
begin

text \<open>
  The configuration menu of main.c: the strings it shows, its lines, what applying a video mode does to
  the devices, and that a frame of the menu always ends with its indices inside their tables.
\<close>

subsection \<open>The strings of the menu\<close>

lemma array_get_Some: "0 \<le> i \<Longrightarrow> i < int (length xs) \<Longrightarrow> array_get xs i = Some (xs ! nat i)"
  by (simp add: array_get_def)

lemma length_dec_u16: "length (dec (unat (w :: u16))) \<le> 5"
proof -
  have "unat w < 2 ^ 16"
    using unsigned_less [of w] by simp
  then show ?thesis
    using length_dec [of "unat w" 4] by simp
qed

lemma unat_ucast_u16: "unat (ucast w :: u32) = unat w" for w :: u16
proof -
  have "unat w < 2 ^ 16"
    using unsigned_less [of w] by simp
  then show ?thesis
    by (simp add: unsigned_ucast_eq take_bit_nat_eq_self)
qed

text \<open>The texts of the two tables.\<close>

definition resolution_text :: "int \<Rightarrow> string" where
  "resolution_text i = dec (unat (res_width (hdmi_resolutions ! nat i))) @ ''x'' @
     dec (unat (res_height (hdmi_resolutions ! nat i)))"

definition refresh_text :: "int \<Rightarrow> string" where
  "refresh_text i = dec (nat (hdmi_refresh_rates ! nat i)) @ ''hz''"

lemma resolution_text_ok: "length (resolution_text i) \<le> 11" "NUL \<notin> set (resolution_text i)"
  using length_dec_u16 [of "res_width (hdmi_resolutions ! nat i)"]
    length_dec_u16 [of "res_height (hdmi_resolutions ! nat i)"] NUL_not_in_dec
  by (auto simp: resolution_text_def NUL_def)

lemma resolution_string:
  assumes "0 \<le> i" "i < int (length hdmi_resolutions)"
  shows "resolution_to_string i = Some (resolution_text i)"
proof -
  define w h where "w = res_width (hdmi_resolutions ! nat i)" and "h = res_height (hdmi_resolutions ! nat i)"
  have "format_out 0 ''%ux%u'' [VInt (ucast w), VInt (ucast h)] = Some (resolution_text i, [])"
    by (simp add: format_out_conv [OF conversion_out_u] format_out_lit format_out_Nil unat_ucast_u16
        resolution_text_def w_def h_def)
  then obtain b where "snprintf_buf (replicate 32 NUL) 32 ''%ux%u'' [VInt (ucast w), VInt (ucast h)] =
      Some (of_nat (length (resolution_text i)), b)" "c_string b = Some (take (unat (32 :: u32) - 1) (resolution_text i))"
    by (rule snprintf_buf_text [where n = 32 and b = "replicate 32 NUL"])
      (use resolution_text_ok [of i] in \<open>simp_all add: PRINTF_MAX_POSSIBLE_BUFFER_SIZE_def\<close>)
  then show ?thesis
    using resolution_text_ok [of i] assms by (simp add: resolution_to_string_def array_get_Some w_def h_def)
qed

lemma refresh_rate_range:
  assumes "0 \<le> i" "i < int (length hdmi_refresh_rates)"
  shows "0 < hdmi_refresh_rates ! nat i" "hdmi_refresh_rates ! nat i < 100"
proof -
  have "hdmi_refresh_rates ! nat i \<in> set hdmi_refresh_rates"
    using assms by simp
  then show "0 < hdmi_refresh_rates ! nat i" "hdmi_refresh_rates ! nat i < 100"
    by (auto simp: hdmi_refresh_rates_def)
qed

lemma refresh_text_ok:
  assumes "0 \<le> i" "i < int (length hdmi_refresh_rates)"
  shows "length (refresh_text i) \<le> 4" "NUL \<notin> set (refresh_text i)"
proof -
  have "nat (hdmi_refresh_rates ! nat i) < 10 ^ Suc 1"
    using refresh_rate_range [OF assms] by simp
  then have "length (dec (nat (hdmi_refresh_rates ! nat i))) \<le> Suc 1"
    by (rule length_dec)
  then show "length (refresh_text i) \<le> 4" "NUL \<notin> set (refresh_text i)"
    using NUL_not_in_dec by (auto simp: refresh_text_def NUL_def)
qed

lemma refresh_string:
  assumes "0 \<le> i" "i < int (length hdmi_refresh_rates)"
  shows "refresh_to_string i = Some (refresh_text i)"
proof -
  define hz where "hz = hdmi_refresh_rates ! nat i"
  have "0 < hz \<and> hz < 100"
    using refresh_rate_range [OF assms] by (simp add: hz_def)
  then have pos: "0 <s (of_int hz :: u32)" "unat (of_int hz :: u32) = nat hz"
    by (simp_all add: word_sless_alt signed_of_int signed_take_bit_int_eq_self unsigned_of_int
        take_bit_int_eq_self)
  note t = refresh_text_ok [OF assms]
  have "format_out 0 ''%dhz'' [VInt (of_int hz)] = Some (refresh_text i, [])"
    by (simp add: format_out_conv [OF conversion_out_d [OF pos(1)]] format_out_lit format_out_Nil refresh_text_def
        pos(2) hz_def [symmetric])
  then obtain b where "snprintf_buf (replicate 10 NUL) 10 ''%dhz'' [VInt (of_int hz)] =
      Some (of_nat (length (refresh_text i)), b)" "c_string b = Some (take (unat (10 :: u32) - 1) (refresh_text i))"
    by (rule snprintf_buf_text [where n = 10 and b = "replicate 10 NUL"])
      (use t in \<open>simp_all add: PRINTF_MAX_POSSIBLE_BUFFER_SIZE_def\<close>)
  then show ?thesis
    using t assms by (simp add: refresh_to_string_def array_get_Some hz_def [symmetric])
qed

lemma table_ranges:
  assumes "0 \<le> i" "i < int (length hdmi_resolutions)"
  shows "160 \<le> uint (res_width (hdmi_resolutions ! nat i))" "uint (res_width (hdmi_resolutions ! nat i)) \<le> 4096"
    "1 \<le> uint (res_height (hdmi_resolutions ! nat i))" "uint (res_height (hdmi_resolutions ! nat i)) \<le> 4096"
    "200000 \<le> uint (res_width (hdmi_resolutions ! nat i)) * uint (res_height (hdmi_resolutions ! nat i))"
proof -
  have "list_all (\<lambda>r. 160 \<le> uint (res_width r) \<and> uint (res_width r) \<le> 4096 \<and> 1 \<le> uint (res_height r) \<and>
      uint (res_height r) \<le> 4096 \<and> 200000 \<le> uint (res_width r) * uint (res_height r)) hdmi_resolutions"
    by (simp add: hdmi_resolutions_def)
  then show "160 \<le> uint (res_width (hdmi_resolutions ! nat i))" "uint (res_width (hdmi_resolutions ! nat i)) \<le> 4096"
    "1 \<le> uint (res_height (hdmi_resolutions ! nat i))" "uint (res_height (hdmi_resolutions ! nat i)) \<le> 4096"
    "200000 \<le> uint (res_width (hdmi_resolutions ! nat i)) * uint (res_height (hdmi_resolutions ! nat i))"
    using assms by (simp_all add: list_all_length)
qed

lemma rate_ranges:
  assumes "0 \<le> i" "i < int (length hdmi_refresh_rates)"
  shows "1 \<le> (of_int (hdmi_refresh_rates ! nat i) :: rat)" "of_int (hdmi_refresh_rates ! nat i) \<le> (1000 :: rat)"
    "to_float (of_int (hdmi_refresh_rates ! nat i)) = of_int (hdmi_refresh_rates ! nat i)"
    "24 \<le> (of_int (hdmi_refresh_rates ! nat i) :: rat)" "of_int (hdmi_refresh_rates ! nat i) \<le> (240 :: rat)"
proof -
  have "list_all (\<lambda>n. 24 \<le> n \<and> n \<le> 240) hdmi_refresh_rates"
    by (simp add: hdmi_refresh_rates_def)
  then have n: "24 \<le> hdmi_refresh_rates ! nat i" "hdmi_refresh_rates ! nat i \<le> 240"
    using assms by (simp_all add: list_all_length)
  then show "1 \<le> (of_int (hdmi_refresh_rates ! nat i) :: rat)" "of_int (hdmi_refresh_rates ! nat i) \<le> (1000 :: rat)"
    "24 \<le> (of_int (hdmi_refresh_rates ! nat i) :: rat)" "of_int (hdmi_refresh_rates ! nat i) \<le> (240 :: rat)"
    by simp_all
  show "to_float (of_int (hdmi_refresh_rates ! nat i)) = of_int (hdmi_refresh_rates ! nat i)"
    using n by (intro single.small_int) simp
qed

subsection \<open>The items of the menu\<close>

text \<open>A menu window with room for n more lines.\<close>

definition menu_room :: "Context \<Rightarrow> nat \<Rightarrow> bool" where
  "menu_room c n \<longleftrightarrow> menuctx c = Some 0 \<and> room c n \<and> rw c = 26"

lemma menu_room_down: "menu_room c (k + n) \<Longrightarrow> unat d = k \<Longrightarrow> menu_room (c\<lparr>ctx_y := ctx_y c + d\<rparr>) n"
  using room_down [of c k n d] by (simp add: menu_room_def)

lemma menu_room_text: "menu_room c (Suc n) \<Longrightarrow> menu_room (text_ctx align t c) n"
  using room_text [of c n align t] by (simp add: menu_room_def text_ctx_def)

lemma menu_room_pen [simp]: "menu_room (c\<lparr>pen := p\<rparr>) n = menu_room c n"
  by (simp add: menu_room_def)

lemma drawn_menu_newline:
  assumes "drawn s (c # r) ms s'" "menu_room c (k + n)" "unat (ucast d :: u16) = k"
  obtains c' where "drawn s (c' # r) ms (gfx_newline d s')" "menu_room c' n"
  using that drawn_newline [OF assms(1), of d] menu_room_down [OF assms(2,3)] by blast

lemma drawn_select_item:
  assumes "drawn s (c # r) ms s'" "menu_room c (n + 2)" "0 \<le> i" "i < k"
    and "\<And>j. 0 \<le> j \<Longrightarrow> j < k \<Longrightarrow> returns (str j) (\<lambda>t. length label + length t \<le> 24)"
  shows "returns (gfx_menuitem_select_func label k str i s')
    (\<lambda>(ch, j, s1). 0 \<le> j \<and> j < k \<and> (\<exists>c' ms'. drawn s (c' # r) ms' s1 \<and> menu_room c' n))"
proof -
  define sel where "sel \<longleftrightarrow> menu_count (ms 0) = menu_index (ms 0)"
  define j where "j = (if sel then option_move (gamepad_pressed s) k i else i)"
  define c1 where "c1 = c\<lparr>ctx_y := ctx_y c + 1, pen := (if sel then TEXT_GRAY OR TEXT_INVERT else TEXT_GRAY)\<rparr>"
  have j: "0 \<le> j" "j < k"
    using option_move_range [of k i] assms(3,4) by (auto simp: j_def)
  then obtain t where t: "str j = Some t" "length label + length t \<le> 24"
    using assms(5) by (meson returnsE)
  have c: "menuctx c = Some 0" "\<not> sameline c" "rw c = 26"
    using assms(2) roomD by (auto simp: menu_room_def)
  have m1: "menu_room c1 (Suc n)"
    using menu_room_down [of c 1 "Suc n" 1] assms(2) by (simp add: c1_def)
  then have m2: "menu_room (text_ctx ALIGN_LEFT (select_line (uint (rw c)) label t) c1) n"
    by (rule menu_room_text)
  have "(uint (ry c) + uint (ctx_y c + 1)) * 128 + uint (rx c) + uint (rw c) \<le> 8192"
    using m1 roomD [of c1 "Suc n"] c(3) by (simp add: menu_room_def c1_def)
  then have "returns (gfx_menuitem_select_func label k str i s')
    (\<lambda>(ch, l, s1). l = j \<and> ch = (j \<noteq> i) \<and>
       drawn s (text_ctx ALIGN_LEFT (select_line (uint (rw c)) label t) c1 # r)
         (ms(0 := (ms 0)\<lparr>menu_count := menu_count (ms 0) + 1\<rparr>)) s1)"
    unfolding c1_def j_def sel_def
    by (intro drawn_select_func [OF assms(1)])
      (use c t in \<open>auto simp: j_def sel_def split: if_splits\<close>)
  then show ?thesis
    by (rule returnsI) (use j m2 in auto)
qed

lemma drawn_button_item:
  assumes "drawn s (c # r) ms s'" "menu_room c (n + 2)" "length label \<le> 26"
  shows "returns (gfx_menuitem_button label s')
    (\<lambda>(ch, s1). \<exists>c' ms'. drawn s (c' # r) ms' s1 \<and> menu_room c' n)"
proof -
  define sel where "sel \<longleftrightarrow> menu_count (ms 0) = menu_index (ms 0)"
  define c1 where "c1 = c\<lparr>ctx_y := ctx_y c + 1, pen := (if sel then TEXT_GRAY OR TEXT_INVERT else TEXT_GRAY)\<rparr>"
  have c: "menuctx c = Some 0" "\<not> sameline c" "rw c = 26"
    using assms(2) roomD by (auto simp: menu_room_def)
  have m1: "menu_room c1 (Suc n)"
    using menu_room_down [of c 1 "Suc n" 1] assms(2) by (simp add: c1_def)
  have "uint (text_x ALIGN_CENTER label c) + int (length label) \<le> 26"
    using c(3) assms(3) by (simp add: text_x_def has_flag_def align_defs unsigned_of_int take_bit_int_eq_self)
  then have "(uint (ry c) + uint (ctx_y c + 1)) * 128 + uint (text_x ALIGN_CENTER label c) + uint (rx c) +
      int (length label) \<le> 8192"
    using m1 roomD [of c1 "Suc n"] by (simp add: menu_room_def c1_def)
  then have "returns (gfx_menuitem_button label s')
    (\<lambda>(ch, s1). ch = ((menu_count (ms 0) = menu_index (ms 0)) \<and> has_flag (gamepad_pressed s) INPUT_OK) \<and>
       drawn s (text_ctx ALIGN_CENTER label c1 # r)
         (ms(0 := (ms 0)\<lparr>menu_count := menu_count (ms 0) + 1\<rparr>)) s1)"
    unfolding c1_def sel_def by (intro drawn_button [OF assms(1)]) (use c in auto)
  then show ?thesis
    by (rule returnsI) (use menu_room_text [OF m1] in auto)
qed

lemma drawn_open_menu:
  assumes "drawn s (c # r) ms s'" "screen_ctx c" "context_idx s + int (length r) < 7"
  shows "returns (gfx_begin_menu ''CONFIG'' 28 18 0 s')
    (\<lambda>s1. \<exists>c' ms'. drawn s (c' # c\<lparr>pen := TEXT_BLUE\<rparr> # r) ms' s1 \<and> menu_room c' 13)"
proof -
  define c2 where "c2 = (framed 1 (window_ctx (ALIGN_CENTER OR ALIGN_MIDDLE) 0 0 28 18 (c\<lparr>pen := TEXT_BLUE\<rparr>)))
    \<lparr>menuctx := Some 0, pen := TEXT_DARK_GRAY\<rparr>"
  have m: "menu_room c2 (Suc 13)"
    using assms(2) by (auto simp: menu_room_def c2_def room_def screen_ctx_def layout_simps)
  have "returns (gfx_begin_menu ''CONFIG'' 28 18 0 s')
    (drawn s (text_ctx ALIGN_CENTER ''CONFIG'' c2 # c\<lparr>pen := TEXT_BLUE\<rparr> # r)
      (ms(0 := menu_move (gamepad_pressed s) (ms 0))))"
    unfolding c2_def
    by (rule drawn_begin_menu [OF assms(1,3)])
      (use assms(2) in \<open>auto simp: screen_ctx_def layout_simps\<close>)
  then show ?thesis
    by (rule returnsI) (use menu_room_text [OF m] in blast)
qed

text \<open>The indices of the menu stay within their tables.\<close>

definition menu_ok :: "menu_state \<Rightarrow> bool" where
  "menu_ok m \<longleftrightarrow>
     0 \<le> mode_idx m \<and> mode_idx m < int (length hdmi_resolutions) \<and>
     0 \<le> refresh_idx m \<and> refresh_idx m < int (length hdmi_refresh_rates) \<and>
     0 \<le> aspect_idx m \<and> aspect_idx m < 2 \<and>
     (0 \<le> applied_mode_idx m \<longrightarrow> applied_mode_idx m < int (length hdmi_resolutions) \<and>
        0 \<le> applied_refresh_idx m \<and> applied_refresh_idx m < int (length hdmi_refresh_rates) \<and>
        0 \<le> applied_aspect_idx m \<and> applied_aspect_idx m < 2)"

lemma menu_ok_reset: "menu_ok m \<Longrightarrow> menu_ok (reset_menu m)"
  by (auto simp: menu_ok_def reset_menu_def hdmi_resolutions_def hdmi_refresh_rates_def)

definition desc_ok :: "char list \<Rightarrow> bool" where
  "desc_ok b \<longleftrightarrow> length b = 32 \<and> returns (c_string b) (\<lambda>t. length t \<le> 31)"

lemma desc_text:
  assumes "length b = 32" "length t \<le> 11" "NUL \<notin> set t" "length u \<le> 9" "NUL \<notin> set u"
  obtains n b' where "snprintf_buf b 32 ''%s @ %s'' [VStr (Some t), VStr (Some u)] = Some (n, b')" "desc_ok b'"
    "c_string b' = Some (t @ '' @ '' @ u)"
proof -
  have "format_out 0 ''%s @ %s'' [VStr (Some t), VStr (Some u)] = Some (t @ '' @ '' @ u, [])"
    by (simp add: format_out_conv [OF conversion_out_s] format_out_lit format_out_Nil)
  then obtain b' where "snprintf_buf b 32 ''%s @ %s'' [VStr (Some t), VStr (Some u)] =
      Some (of_nat (length (t @ '' @ '' @ u)), b')" "c_string b' = Some (take (unat (32 :: u32) - 1) (t @ '' @ '' @ u))"
      "length b' = length b"
    by (rule snprintf_buf_text [where n = 32 and b = b])
      (use assms in \<open>auto simp: PRINTF_MAX_POSSIBLE_BUFFER_SIZE_def NUL_def\<close>)
  then show ?thesis
    using that assms by (simp add: desc_ok_def)
qed

text \<open>The mode the menu shows.\<close>

definition chosen_mode :: "menu_state \<Rightarrow> HDMIResolution" where
  "chosen_mode m = hdmi_resolutions ! nat (mode_idx m)"

definition chosen_rate :: "menu_state \<Rightarrow> rat" where
  "chosen_rate m = of_int (hdmi_refresh_rates ! nat (refresh_idx m))"

definition chosen_wide :: "menu_state \<Rightarrow> bool" where
  "chosen_wide m \<longleftrightarrow> res_wide (chosen_mode m) \<and> aspect_idx m = 1"

text \<open>Applying a video mode sets the two screens and the description.\<close>

lemmas int_ctrl_defs = INT2_CTRL_def INT4_CTRL_def INT6_CTRL_def INT_SRC_VBLANK_def INT_SRC_HDMI_VBLANK_def
  INT_SRC_USERIO_def INT_INVERT_def

lemma apply_video_parts:
  assumes m: "menu_ok (menu f)" and d: "length (video_mode_desc f) = 32"
    and g: "gfx_set_240p (chosen_rate (menu f)) (chosen_wide (menu f)) (scr f, crtc f) = Some (g', r')"
    and bs: "hdmi_set_mode (res_width (chosen_mode (menu f))) (res_height (chosen_mode (menu f)))
      (chosen_rate (menu f)) = Some bs"
  obtains f' where "apply_video f = Some f'" "scr f' = g'" "crtc f' = r'" "hps f' = hps f @ bs"
    "menu f' = (menu f)\<lparr>applied_mode_idx := mode_idx (menu f), applied_refresh_idx := refresh_idx (menu f),
       applied_aspect_idx := aspect_idx (menu f)\<rparr>"
    "desc_ok (video_mode_desc f')"
    "c_string (video_mode_desc f') =
       Some (resolution_text (mode_idx (menu f)) @ '' @ '' @ refresh_text (refresh_idx (menu f)))"
    "smp f' = smp f" "status f' = status f" "test_position f' = test_position f" "main_mode f' = main_mode f"
    "rand_state f' = rand_state f" "drop_bit 4 (int_ctrl f') AND 0xf = INT_SRC_HDMI_VBLANK OR INT_INVERT"
proof -
  have ij: "0 \<le> mode_idx (menu f)" "mode_idx (menu f) < int (length hdmi_resolutions)"
    "0 \<le> refresh_idx (menu f)" "refresh_idx (menu f) < int (length hdmi_refresh_rates)"
    using m by (simp_all add: menu_ok_def)
  note hz = rate_ranges(3) [OF ij(3,4), folded chosen_rate_def]
  have u: "length (refresh_text (refresh_idx (menu f))) \<le> 9"
    using refresh_text_ok(1) [OF ij(3,4)] by simp
  obtain n b where b: "snprintf_buf (video_mode_desc f) 32 ''%s @ %s''
      [VStr (Some (resolution_text (mode_idx (menu f)))), VStr (Some (refresh_text (refresh_idx (menu f))))] = Some (n, b)"
    "desc_ok b" "c_string b = Some (resolution_text (mode_idx (menu f)) @ '' @ '' @ refresh_text (refresh_idx (menu f)))"
    by (rule desc_text [OF d resolution_text_ok u refresh_text_ok(2) [OF ij(3,4)]])
  define f' where "f' = f\<lparr>int_ctrl := INT2_CTRL INT_SRC_VBLANK OR INT4_CTRL (INT_SRC_HDMI_VBLANK OR INT_INVERT) OR
      INT6_CTRL INT_SRC_USERIO, scr := g', crtc := r', hps := hps f @ bs,
    menu := (menu f)\<lparr>applied_mode_idx := mode_idx (menu f), applied_refresh_idx := refresh_idx (menu f),
       applied_aspect_idx := aspect_idx (menu f)\<rparr>, video_mode_desc := b\<rparr>"
  have "apply_video f = Some f'"
    using b g bs hz
    by (simp add: apply_video_def Let_def array_get_Some ij chosen_mode_def [symmetric] chosen_rate_def [symmetric]
        chosen_wide_def [symmetric] resolution_string [OF ij(1,2)] refresh_string [OF ij(3,4)] f'_def)
  then show ?thesis
    by (rule that) (simp_all add: f'_def b(2,3) int_ctrl_defs)
qed

lemma chosen_ranges:
  assumes "menu_ok m"
  shows "160 \<le> uint (res_width (chosen_mode m))" "uint (res_width (chosen_mode m)) \<le> 4096"
    "1 \<le> uint (res_height (chosen_mode m))" "uint (res_height (chosen_mode m)) \<le> 4096"
    "1 \<le> chosen_rate m" "chosen_rate m \<le> 1000" "24 \<le> chosen_rate m" "chosen_rate m \<le> 240"
    "200000 \<le> uint (res_width (chosen_mode m)) * uint (res_height (chosen_mode m))"
  using assms table_ranges [of "mode_idx m"] rate_ranges [of "refresh_idx m"]
  by (simp_all add: menu_ok_def chosen_mode_def chosen_rate_def)

lemma chosen_clock:
  assumes "menu_ok m"
  shows "3200000 \<le> of_int (uint (res_width (chosen_mode m)) * uint (res_height (chosen_mode m))) * chosen_rate m"
proof -
  have "rat_of_int 200000 \<le> of_int (uint (res_width (chosen_mode m)) * uint (res_height (chosen_mode m)))"
    using chosen_ranges(9) [OF assms] by (simp only: of_int_le_iff)
  then have "200000 * 24 \<le> of_int (uint (res_width (chosen_mode m)) * uint (res_height (chosen_mode m))) * chosen_rate m"
    using chosen_ranges(7) [OF assms] by (intro mult_mono) auto
  then show ?thesis
    by simp
qed

lemma apply_video_effect:
  assumes "menu_ok (menu f)" "length (video_mode_desc f) = 32" "8 \<le> idle_polls (pll_io (crtc f))" "pages_ok (scr f)"
  shows "\<exists>f' t c m k c' m' k' bs. apply_video f = Some f' \<and> hps f' = hps f @ bs \<and>
    valid_timing (uint (res_width (chosen_mode (menu f)))) (uint (res_height (chosen_mode (menu f)))) (map uint t) \<and>
    transactions None bs =
      Some ([[VIO_SET_OVERRIDE, 1], [VIO_SET_CFG, 0], VIO_SET_MODE # t @ [1]] @
        map pll_command (pll_sequence (c, m, k)) @ [[VIO_SET_CFG, 1]]) \<and>
    \<bar>pll_frequency c m k - pixel_clock (map uint t) (chosen_rate (menu f))\<bar>
      \<le> 11 / 1000 * pixel_clock (map uint t) (chosen_rate (menu f)) \<and>
    generator_clock (pll_sequence (c, m, k)) = Some (pll_frequency c m k) \<and>
    pll_writes (crtc f') = pll_writes (crtc f) @ pll_sequence (c', m', k') @ [(2, 0)] \<and>
    \<bar>pll_frequency c' m' k' / 4 * 1000000 / frame_total (chosen_wide (menu f)) - chosen_rate (menu f)\<bar>
      \<le> 12 / 1000 * chosen_rate (menu f) \<and>
    generator_clock (pll_sequence (c', m', k')) = Some (pll_frequency c' m' k') \<and>
    \<not> menu_changed (menu f') \<and> drop_bit 4 (int_ctrl f') AND 0xf = INT_SRC_HDMI_VBLANK OR INT_INVERT \<and>
    c_string (video_mode_desc f') =
      Some (resolution_text (mode_idx (menu f)) @ '' @ '' @ refresh_text (refresh_idx (menu f)))"
proof -
  note ch = chosen_ranges [OF assms(1)]
  obtain t c m k bs where h:
    "valid_timing (uint (res_width (chosen_mode (menu f)))) (uint (res_height (chosen_mode (menu f)))) (map uint t)"
    "hdmi_set_mode (res_width (chosen_mode (menu f))) (res_height (chosen_mode (menu f))) (chosen_rate (menu f)) = Some bs"
    "transactions None bs =
      Some ([[VIO_SET_OVERRIDE, 1], [VIO_SET_CFG, 0], VIO_SET_MODE # t @ [1]] @
        map pll_command (pll_sequence (c, m, k)) @ [[VIO_SET_CFG, 1]])"
    "\<bar>pll_frequency c m k - pixel_clock (map uint t) (chosen_rate (menu f))\<bar>
      \<le> 11 / 1000 * pixel_clock (map uint t) (chosen_rate (menu f))"
    "generator_clock (pll_sequence (c, m, k)) = Some (pll_frequency c m k)"
    using hdmi_set_mode_effect [OF ch(1-6)] chosen_clock [OF assms(1)] ch(8) by blast
  have pg: "length (contexts (scr f)) = 8" "ctx (scr f) < 8" "page_front (scr f) = 0 \<or> page_front (scr f) = 1"
    using assms(4) by (simp_all add: pages_ok_def)
  obtain g' r' c' m' k' where g: "gfx_set_240p (chosen_rate (menu f)) (chosen_wide (menu f)) (scr f, crtc f) = Some (g', r')"
    "pll_writes r' = pll_writes (crtc f) @ pll_sequence (c', m', k') @ [(2, 0)]"
    "\<bar>pll_frequency c' m' k' / 4 * 1000000 / frame_total (chosen_wide (menu f)) - chosen_rate (menu f)\<bar>
      \<le> 12 / 1000 * chosen_rate (menu f)"
    "generator_clock (pll_sequence (c', m', k')) = Some (pll_frequency c' m' k')"
    using set_240p_effect [OF ch(5,6) assms(3) pg, of "chosen_wide (menu f)"] ch(7) by auto
  obtain f' where f': "apply_video f = Some f'" "crtc f' = r'" "hps f' = hps f @ bs"
    "menu f' = (menu f)\<lparr>applied_mode_idx := mode_idx (menu f), applied_refresh_idx := refresh_idx (menu f),
       applied_aspect_idx := aspect_idx (menu f)\<rparr>"
    "c_string (video_mode_desc f') =
       Some (resolution_text (mode_idx (menu f)) @ '' @ '' @ refresh_text (refresh_idx (menu f)))"
    "drop_bit 4 (int_ctrl f') AND 0xf = INT_SRC_HDMI_VBLANK OR INT_INVERT"
    by (rule apply_video_parts [OF assms(1,2) g(1) h(2)])
  have "\<not> menu_changed (menu f')"
    by (simp add: f'(4) menu_changed_def)
  then show ?thesis
    using f' g(2-4) h by blast
qed

text \<open>In the menu, the screen is the new one and the drawing goes on in the menu's context.\<close>

lemma apply_video_returns:
  assumes m: "menu_ok (menu f)" and d: "length (video_mode_desc f) = 32"
    and idle: "8 \<le> idle_polls (pll_io (crtc f))" and g: "pages_ok (scr f)" "0 < ctx (scr f)"
  shows "returns (apply_video f) (\<lambda>f'. \<exists>g' wide.
    smp f' = smp f \<and> scr f' = g' \<and> status f' = status f \<and> test_position f' = test_position f \<and>
    main_mode f' = main_mode f \<and> rand_state f' = rand_state f \<and>
    desc_ok (video_mode_desc f') \<and> menu_ok (menu f') \<and> hps f' \<noteq> hps f \<and>
    timing (crtc f') = timing_240p wide \<and> page_regs g' \<and>
    pages_ok g' \<and> gfx_wf g' \<and> context_idx g' = 1 \<and> cur g' = cur (scr f) \<and>
    contexts g' ! 0 = resized wide (contexts (scr f) ! 0) \<and> gamepad_pressed g' = gamepad_pressed (scr f))"
proof -
  note ch = chosen_ranges [OF m]
  obtain g' r' where g': "gfx_set_240p (chosen_rate (menu f)) (chosen_wide (menu f)) (scr f, crtc f) = Some (g', r')"
    "pages_ok g'" "gfx_wf g'" "context_idx g' = 1" "contexts g' ! 0 = resized (chosen_wide (menu f)) (contexts (scr f) ! 0)"
    "cur g' = cur (scr f)" "gamepad_pressed g' = gamepad_pressed (scr f)" "page_regs g'"
    "timing r' = timing_240p (chosen_wide (menu f))"
    using set_240p_effect [OF ch(5,6) idle, of "scr f" "chosen_wide (menu f)"] g by (auto simp: pages_ok_def)
  obtain bs where bs: "hdmi_set_mode (res_width (chosen_mode (menu f))) (res_height (chosen_mode (menu f)))
      (chosen_rate (menu f)) = Some bs" "bs \<noteq> []"
    using hdmi_set_mode_effect [OF ch(1-6)] by force
  have m': "menu_ok ((menu f)\<lparr>applied_mode_idx := mode_idx (menu f), applied_refresh_idx := refresh_idx (menu f),
       applied_aspect_idx := aspect_idx (menu f)\<rparr>)"
    using m by (simp add: menu_ok_def)
  show ?thesis
    by (rule apply_video_parts [OF m d g'(1) bs(1)]) (use g' bs(2) m' in auto)
qed

subsection \<open>A frame of the menu\<close>

lemma array_strings: "0 \<le> j \<Longrightarrow> j < 2 \<Longrightarrow> length t \<le> n \<Longrightarrow> length u \<le> n \<Longrightarrow>
    returns (menuitem_to_string_simple [t, u] j) (\<lambda>v. length v \<le> n)"
  by (auto simp: menuitem_to_string_simple_def nth_Cons split: nat.splits)

lemma drawn_menu_tail:
  assumes "drawn s (c # r) ms s'" "menu_room c 4" "tp = 0 \<or> tp = 1"
  shows "returns (gfx_menuitem_select ''Test Position'' [''Left'', ''Right''] 2 tp (gfx_newline 2 s'))
    (\<lambda>(ch, j, s1). (j = 0 \<or> j = 1) \<and> (\<exists>c' ms'. drawn s (c' # r) ms' s1))"
proof -
  obtain c' where c': "drawn s (c' # r) ms (gfx_newline 2 s')" "menu_room c' (0 + 2)"
    by (rule drawn_menu_newline [OF assms(1), of 2 "0 + 2" 2]) (use assms(2) in simp_all)
  have "returns (gfx_menuitem_select_func ''Test Position'' 2 (menuitem_to_string_simple [''Left'', ''Right'']) tp
      (gfx_newline 2 s')) (\<lambda>(ch, j, s1). 0 \<le> j \<and> j < 2 \<and> (\<exists>c' ms'. drawn s (c' # r) ms' s1 \<and> menu_room c' 0))"
  proof (rule drawn_select_item [OF c'])
    show "returns (menuitem_to_string_simple [''Left'', ''Right''] j) (\<lambda>t. length ''Test Position'' + length t \<le> 24)"
      if "0 \<le> j" "j < 2" for j
      by (rule returnsI [OF array_strings [OF that, of _ 5]]) auto
  qed (use assms(3) in auto)
  then show ?thesis
    unfolding gfx_menuitem_select_def by (rule returnsI) auto
qed

lemma pop_root:
  assumes "drawn g [c] ms g'" "pages_ok g" "context_idx g = 1" "screen_ctx (contexts g ! 0)" "page_regs g"
  shows "scr_ok (gfx_pop g')"
proof -
  obtain w: "gfx_wf g" "gfx_wf g'" "context_idx g' = 1" "ctx g' = 1" "vram g' = vram g"
    using assms(1,3) by (elim drawnE) (simp add: gfx_wf_def)
  then have "contexts g' ! 0 = contexts g ! 0"
    using drawn_pages(3) [OF assms(1,2), of 0] assms(3) by (simp add: gfx_wf_def)
  then show ?thesis
    using w assms(4,5) drawn_pages(1,4) [OF assms(1,2)]
    by (simp add: scr_ok_def gfx_pop_def NUM_CTX_def gfx_wf_def pages_ok_def page_regs_def page_ok_def cur_def)
qed

lemma drawn_aspect:
  assumes "drawn s (c # r) ms s'" "menu_room c (n + 2)" "0 \<le> i" "i < 2"
  shows "returns (if b then map_option snd (gfx_menuitem_select ''Aspect Ratio'' [''4:3'', ''16:9''] 2 i s')
      else Some (i, gfx_newline 2 s'))
    (\<lambda>(j, s1). 0 \<le> j \<and> j < 2 \<and> (\<exists>c' ms'. drawn s (c' # r) ms' s1 \<and> menu_room c' n))"
proof (cases b)
  case True
  have "returns (gfx_menuitem_select_func ''Aspect Ratio'' 2 (menuitem_to_string_simple [''4:3'', ''16:9'']) i s')
      (\<lambda>(ch, j, s1). 0 \<le> j \<and> j < 2 \<and> (\<exists>c' ms'. drawn s (c' # r) ms' s1 \<and> menu_room c' n))"
  proof (rule drawn_select_item [OF assms])
    show "returns (menuitem_to_string_simple [''4:3'', ''16:9''] j) (\<lambda>t. length ''Aspect Ratio'' + length t \<le> 24)"
      if "0 \<le> j" "j < 2" for j
      by (rule returnsI [OF array_strings [OF that, of _ 5]]) auto
  qed
  then show ?thesis
    using True unfolding gfx_menuitem_select_def by (auto simp: returns_map elim!: returnsI) blast
next
  case False
  obtain c' where "drawn s (c' # r) ms (gfx_newline 2 s')" "menu_room c' n"
    by (rule drawn_menu_newline [OF assms(1), of 2 n 2]) (use assms(2) in \<open>simp_all add: add.commute\<close>)
  then show ?thesis
    using False assms(3,4) by auto
qed

lemma drawn_resolution_item:
  assumes "drawn s (c # r) ms s'" "menu_room c (n + 2)" "0 \<le> i" "i < int (length hdmi_resolutions)"
  shows "returns (gfx_menuitem_select_func ''Resolution'' (int (length hdmi_resolutions)) resolution_to_string i s')
    (\<lambda>(ch, j, s1). 0 \<le> j \<and> j < int (length hdmi_resolutions) \<and>
       (\<exists>c' ms'. drawn s (c' # r) ms' s1 \<and> menu_room c' n))"
proof (rule drawn_select_item [OF assms])
  show "returns (resolution_to_string j) (\<lambda>t. length ''Resolution'' + length t \<le> 24)"
    if "0 \<le> j" "j < int (length hdmi_resolutions)" for j
    using resolution_text_ok(1) [of j] by (simp add: resolution_string [OF that])
qed

lemma drawn_refresh_item:
  assumes "drawn s (c # r) ms s'" "menu_room c (n + 2)" "0 \<le> i" "i < int (length hdmi_refresh_rates)"
  shows "returns (gfx_menuitem_select_func ''Refresh Rate'' (int (length hdmi_refresh_rates)) refresh_to_string i s')
    (\<lambda>(ch, j, s1). 0 \<le> j \<and> j < int (length hdmi_refresh_rates) \<and>
       (\<exists>c' ms'. drawn s (c' # r) ms' s1 \<and> menu_room c' n))"
proof (rule drawn_select_item [OF assms])
  show "returns (refresh_to_string j) (\<lambda>t. length ''Refresh Rate'' + length t \<le> 24)"
    if "0 \<le> j" "j < int (length hdmi_refresh_rates)" for j
    using refresh_text_ok(1) [OF that] by (simp add: refresh_string [OF that])
qed

text \<open>The lines of the menu above the button.\<close>

lemma drawn_menu_top:
  assumes "drawn s [c] ms s'" "screen_ctx c" "context_idx s \<le> 1" "menu_ok m"
  obtains g1 g2 ch1 i g3 ch2 j g4 k g5 c6 ms6 where
    "gfx_clear s' = Some g1" "gfx_begin_menu ''CONFIG'' 28 18 0 g1 = Some g2"
    "gfx_menuitem_select_func ''Resolution'' (int (length hdmi_resolutions)) resolution_to_string (mode_idx m) g2 =
       Some (ch1, i, g3)"
    "gfx_menuitem_select_func ''Refresh Rate'' (int (length hdmi_refresh_rates)) refresh_to_string (refresh_idx m) g3 =
       Some (ch2, j, g4)"
    "array_get hdmi_resolutions i = Some (hdmi_resolutions ! nat i)"
    "(if res_wide (hdmi_resolutions ! nat i)
      then map_option snd (gfx_menuitem_select ''Aspect Ratio'' [''4:3'', ''16:9''] 2 (aspect_idx m) g4)
      else Some (aspect_idx m, gfx_newline 2 g4)) = Some (k, g5)"
    "menu_ok (m\<lparr>mode_idx := i, refresh_idx := j, aspect_idx := k\<rparr>)"
    "drawn s [c6, c\<lparr>pen := TEXT_BLUE\<rparr>] ms6 (gfx_newline 1 g5)" "menu_room c6 6"
proof -
  have box: "box_ok c"
    using assms(2) by (auto simp: screen_ctx_def box_ok_def)
  obtain g1 where g1: "gfx_clear s' = Some g1" "drawn s [c] ms g1"
    using drawn_clear [OF assms(1) box] by (rule returnsE)
  obtain g2 c2 ms2 where g2: "gfx_begin_menu ''CONFIG'' 28 18 0 g1 = Some g2"
    "drawn s [c2, c\<lparr>pen := TEXT_BLUE\<rparr>] ms2 g2" "menu_room c2 (11 + 2)"
    using drawn_open_menu [OF g1(2) assms(2)] assms(3) by (auto elim!: returnsE)
  have m: "0 \<le> mode_idx m" "mode_idx m < int (length hdmi_resolutions)"
    "0 \<le> refresh_idx m" "refresh_idx m < int (length hdmi_refresh_rates)" "0 \<le> aspect_idx m" "aspect_idx m < 2"
    using assms(4) by (simp_all add: menu_ok_def)
  obtain ch1 i g3 c3 ms3 where g3: "gfx_menuitem_select_func ''Resolution'' (int (length hdmi_resolutions))
      resolution_to_string (mode_idx m) g2 = Some (ch1, i, g3)" "0 \<le> i" "i < int (length hdmi_resolutions)"
    "drawn s [c3, c\<lparr>pen := TEXT_BLUE\<rparr>] ms3 g3" "menu_room c3 (9 + 2)"
    using drawn_resolution_item [OF g2(2,3) m(1,2)]
    by (auto elim!: returnsE)
  obtain ch2 j g4 c4 ms4 where g4: "gfx_menuitem_select_func ''Refresh Rate'' (int (length hdmi_refresh_rates))
      refresh_to_string (refresh_idx m) g3 = Some (ch2, j, g4)" "0 \<le> j" "j < int (length hdmi_refresh_rates)"
    "drawn s [c4, c\<lparr>pen := TEXT_BLUE\<rparr>] ms4 g4" "menu_room c4 (7 + 2)"
    using drawn_refresh_item [OF g3(4,5) m(3,4)] by (auto elim!: returnsE)
  obtain k g5 c5 ms5 where g5: "(if res_wide (hdmi_resolutions ! nat i)
      then map_option snd (gfx_menuitem_select ''Aspect Ratio'' [''4:3'', ''16:9''] 2 (aspect_idx m) g4)
      else Some (aspect_idx m, gfx_newline 2 g4)) = Some (k, g5)" "0 \<le> k" "k < 2"
    "drawn s [c5, c\<lparr>pen := TEXT_BLUE\<rparr>] ms5 g5" "menu_room c5 (1 + 6)"
    using drawn_aspect [OF g4(4,5) m(5,6), of "res_wide (hdmi_resolutions ! nat i)"]
    by (auto elim!: returnsE)
  obtain c6 where "drawn s [c6, c\<lparr>pen := TEXT_BLUE\<rparr>] ms5 (gfx_newline 1 g5)" "menu_room c6 6"
    by (rule drawn_menu_newline [OF g5(4,5), of 1]) auto
  moreover have "menu_ok (m\<lparr>mode_idx := i, refresh_idx := j, aspect_idx := k\<rparr>)"
    using assms(4) g3(2,3) g4(2,3) g5(2,3) by (simp add: menu_ok_def)
  ultimately show ?thesis
    using that g1(1) g2(1) g3(1) g4(1) array_get_Some [OF g3(2,3)] g5(1) by blast
qed

text \<open>The button of the menu, pressed or not: either the drawing goes on in the menu of the same
  screen and no mode was sent, or a mode was sent and the drawing goes on over the new screen.\<close>

definition menu_goes_on :: "gfx \<Rightarrow> Context \<Rightarrow> firmware \<Rightarrow> firmware \<Rightarrow> bool" where
  "menu_goes_on s d f f' \<longleftrightarrow> main_mode f' = main_mode f \<and> rand_state f' = rand_state f \<and>
     gamepad_pressed (scr f') = gamepad_pressed s \<and> smp f' = smp f \<and> status f' = status f \<and> test_position f' = test_position f \<and>
     desc_ok (video_mode_desc f') \<and> menu_ok (menu f') \<and>
     (timing (crtc f') = timing (crtc f) \<or> (\<exists>wide. timing (crtc f') = timing_240p wide)) \<and>
     (hps f' = hps f \<and> (\<exists>c ms. drawn s [c, d] ms (scr f') \<and> menu_room c 4) \<or>
      hps f' \<noteq> hps f \<and> pages_ok (scr f') \<and> gfx_wf (scr f') \<and> context_idx (scr f') = 1 \<and>
        menu_room (cur (scr f')) 4 \<and> screen_ctx (contexts (scr f') ! 0) \<and> page_regs (scr f'))"

lemma menu_button:
  assumes "drawn s [c, d] ms (scr f)" "menu_room c 6" "menu_ok (menu f)" "desc_ok (video_mode_desc f)"
    and "8 \<le> idle_polls (pll_io (crtc f))" "scr_ok s" "screen_ctx d"
  shows "returns (apply_button f) (\<lambda>(cl, f'). menu_goes_on s d f f' \<and> cl = (hps f' \<noteq> hps f))"
proof (cases "menu_changed (menu f)")
  case True
  obtain pressed g1 c1 ms1 where g1: "gfx_menuitem_button ''Apply Video Changes'' (scr f) = Some (pressed, g1)"
    "drawn s [c1, d] ms1 g1" "menu_room c1 4"
    using drawn_button_item [OF assms(1), of 4 "''Apply Video Changes''"] assms(2) by (auto elim!: returnsE)
  show ?thesis
  proof (cases pressed)
    case p: True
    have pg: "pages_ok g1" "0 < ctx g1" "cur g1 = c1" "gamepad_pressed g1 = gamepad_pressed s"
      using g1(2) drawn_pages(1) [OF g1(2)] assms(6) by (auto simp: scr_ok_def elim!: drawnE)
    have root: "screen_ctx (contexts g1 ! 0)"
    proof (cases "ctx s = 0")
      case True
      then have "contexts g1 ! 0 = d"
        using g1(2) by (auto simp: drawn_def dest: spec [of _ 0])
      then show ?thesis
        using assms(7) by simp
    next
      case False
      then show ?thesis
        using drawn_pages(3) [OF g1(2), of 0] assms(6) by (simp add: scr_ok_def)
    qed
    have "screen_ctx (resized wide (contexts g1 ! 0))" for wide
      using root by (simp add: screen_ctx_def resized_def)
    then have "returns (apply_video (f\<lparr>scr := g1\<rparr>)) (\<lambda>f'. menu_goes_on s d f f' \<and> hps f' \<noteq> hps f)"
      using apply_video_returns [of "f\<lparr>scr := g1\<rparr>"] assms(3,4,5) pg g1(3)
      by (auto simp: desc_ok_def menu_goes_on_def elim!: returnsI)
    then show ?thesis
      using True p g1(1) by (auto simp: apply_button_def returns_map)
  qed (use True g1 assms(3,4) in \<open>auto simp: apply_button_def menu_goes_on_def elim: drawnE\<close>)
qed (use assms in \<open>auto simp: apply_button_def menu_goes_on_def menu_room_def room_def elim: drawnE\<close>)

lemma gfx_pop_pressed: "gamepad_pressed (gfx_pop g) = gamepad_pressed g"
  by (simp add: gfx_pop_def Let_def)

lemma menu_tail:
  assumes "menu_goes_on s d f0 f" "scr_ok s" "screen_ctx d" "test_position f = 0 \<or> test_position f = 1"
  shows "returns (gfx_menuitem_select ''Test Position'' [''Left'', ''Right''] 2 (test_position f)
      (gfx_newline 2 (scr f)))
    (\<lambda>(ch, tp, g). (tp = 0 \<or> tp = 1) \<and> scr_ok (gfx_end_menu g) \<and>
       gamepad_pressed (gfx_end_menu g) = gamepad_pressed s \<and>
       (hps f = hps f0 \<longrightarrow> back_page_only s (gfx_end_menu g)))"
proof (cases "hps f = hps f0")
  case True
  then obtain c ms where c: "drawn s [c, d] ms (scr f)" "menu_room c 4"
    using assms(1) by (auto simp: menu_goes_on_def)
  show ?thesis
    by (rule returnsI [OF drawn_menu_tail [OF c assms(4)]])
      (auto simp: gfx_end_menu_def gfx_end_window_def dest!: drawn_pop dest: drawn_scr_ok [OF _ assms(2,3)]
        elim: drawnE)
next
  case False
  then have g: "gfx_wf (scr f)" "pages_ok (scr f)" "context_idx (scr f) = 1" "menu_room (cur (scr f)) 4"
    "screen_ctx (contexts (scr f) ! 0)" "gamepad_pressed (scr f) = gamepad_pressed s" "page_regs (scr f)"
    using assms(1) by (auto simp: menu_goes_on_def)
  show ?thesis
    by (rule returnsI [OF drawn_menu_tail [OF drawn_refl [OF g(1)] g(4) assms(4)]])
      (auto simp: gfx_end_menu_def gfx_end_window_def False gfx_pop_pressed g(6) dest: pop_root [OF _ g(2,3,5,7)] elim: drawnE)
qed

lemma menu_frame:
  assumes "scr_ok (scr f)" "menu_ok (menu f)" "desc_ok (video_mode_desc f)" "test_position f = 0 \<or> test_position f = 1"
    and "8 \<le> idle_polls (pll_io (crtc f))"
  shows "returns (draw_menu reset f) (\<lambda>(opn, f').
    opn = (hps f' = hps f \<and> \<not> has_flag (gamepad_pressed (scr f)) (INPUT_MENU OR INPUT_BACK)) \<and>
    main_mode f' = main_mode f \<and> rand_state f' = rand_state f \<and>
    gamepad_pressed (scr f') = gamepad_pressed (scr f) \<and> scr_ok (scr f') \<and> menu_ok (menu f') \<and>
    desc_ok (video_mode_desc f') \<and> (test_position f' = 0 \<or> test_position f' = 1) \<and> smp f' = smp f \<and>
    status f' = status f \<and> (timing (crtc f') = timing (crtc f) \<or> (\<exists>wide. timing (crtc f') = timing_240p wide)) \<and>
    (hps f' = hps f \<longrightarrow> back_page_only (scr f) (scr f')))"
proof -
  define m where "m = (if reset then reset_menu (menu f) else menu f)"
  have m: "menu_ok m"
    using assms(2) by (simp add: m_def menu_ok_reset)
  define d where "d = (cur (scr f))\<lparr>pen := TEXT_BLUE\<rparr>"
  have s: "drawn (scr f) [cur (scr f)] (menus (scr f)) (scr f)" "screen_ctx (cur (scr f))"
    "context_idx (scr f) \<le> 1" "screen_ctx d"
    using assms(1) by (auto simp: scr_ok_def drawn_refl d_def)
  obtain g1 g2 ch1 i g3 ch2 j g4 k g5 c6 ms6 where top:
    "gfx_clear (scr f) = Some g1" "gfx_begin_menu ''CONFIG'' 28 18 0 g1 = Some g2"
    "gfx_menuitem_select_func ''Resolution'' (int (length hdmi_resolutions)) resolution_to_string (mode_idx m) g2 =
       Some (ch1, i, g3)"
    "gfx_menuitem_select_func ''Refresh Rate'' (int (length hdmi_refresh_rates)) refresh_to_string (refresh_idx m) g3 =
       Some (ch2, j, g4)"
    "array_get hdmi_resolutions i = Some (hdmi_resolutions ! nat i)"
    "(if res_wide (hdmi_resolutions ! nat i)
      then map_option snd (gfx_menuitem_select ''Aspect Ratio'' [''4:3'', ''16:9''] 2 (aspect_idx m) g4)
      else Some (aspect_idx m, gfx_newline 2 g4)) = Some (k, g5)"
    "menu_ok (m\<lparr>mode_idx := i, refresh_idx := j, aspect_idx := k\<rparr>)"
    "drawn (scr f) [c6, d] ms6 (gfx_newline 1 g5)" "menu_room c6 6"
    unfolding d_def using drawn_menu_top [OF s(1-3) m] by blast
  define m1 where "m1 = m\<lparr>mode_idx := i, refresh_idx := j, aspect_idx := k\<rparr>"
  define f1 where "f1 = f\<lparr>menu := m1, scr := gfx_newline 1 g5\<rparr>"
  have "returns (apply_button f1) (\<lambda>(cl, f'). menu_goes_on (scr f) d f1 f' \<and> cl = (hps f' \<noteq> hps f1))"
    by (rule menu_button) (use top(7-9) assms(1,3,5) s(4) in \<open>auto simp: f1_def m1_def\<close>)
  then obtain cl f2 where f2: "apply_button f1 = Some (cl, f2)" "menu_goes_on (scr f) d f1 f2" "cl = (hps f2 \<noteq> hps f1)"
    by (auto elim!: returnsE)
  have tp: "test_position f2 = 0 \<or> test_position f2 = 1"
    using f2(2) assms(4) by (auto simp: menu_goes_on_def f1_def)
  obtain ch tp g6 where tail: "gfx_menuitem_select ''Test Position'' [''Left'', ''Right''] 2 (test_position f2)
      (gfx_newline 2 (scr f2)) = Some (ch, tp, g6)" "tp = 0 \<or> tp = 1" "scr_ok (gfx_end_menu g6)"
    "gamepad_pressed (gfx_end_menu g6) = gamepad_pressed (scr f)"
    "hps f2 = hps f1 \<longrightarrow> back_page_only (scr f) (gfx_end_menu g6)"
    using menu_tail [OF f2(2) assms(1) s(4) tp] by (auto elim!: returnsE)
  show ?thesis
    using f2(2,3) tail(2-5)
    by (simp add: draw_menu_def Let_def m_def [symmetric] top(1-6) m1_def [symmetric] f1_def [symmetric] f2(1) tail(1))
      (simp add: menu_goes_on_def f1_def input_pressed_def)
qed

subsection \<open>Properties\<close>

text \<open>C7. Applying the mode the menu shows always ends and sets both screens to it. The writes to the HPS
  are complete transactions that send a valid timing for the chosen resolution and a pixel clock right
  for the chosen refresh rate to 1.1 percent; the local screen, narrow or wide as chosen, gets that
  refresh rate to 1.2 percent. Both clocks are what the sent registers produce when they are read back.
  Afterwards the frame capture comes from the end of the HDMI vertical blank,
  the menu shows no change to apply, and the description is the resolution and the rate in decimal.\<close>

theorem apply_video_correct:
  assumes "menu_ok (menu f)" "length (video_mode_desc f) = 32" "8 \<le> idle_polls (pll_io (crtc f))" "pages_ok (scr f)"
  shows "\<exists>f' t c m k c' m' k' bs. apply_video f = Some f' \<and> hps f' = hps f @ bs \<and>
    valid_timing (uint (res_width (chosen_mode (menu f)))) (uint (res_height (chosen_mode (menu f)))) (map uint t) \<and>
    transactions None bs =
      Some ([[VIO_SET_OVERRIDE, 1], [VIO_SET_CFG, 0], VIO_SET_MODE # t @ [1]] @
        map pll_command (pll_sequence (c, m, k)) @ [[VIO_SET_CFG, 1]]) \<and>
    \<bar>pll_frequency c m k - pixel_clock (map uint t) (chosen_rate (menu f))\<bar>
      \<le> 11 / 1000 * pixel_clock (map uint t) (chosen_rate (menu f)) \<and>
    generator_clock (pll_sequence (c, m, k)) = Some (pll_frequency c m k) \<and>
    pll_writes (crtc f') = pll_writes (crtc f) @ pll_sequence (c', m', k') @ [(2, 0)] \<and>
    \<bar>pll_frequency c' m' k' / 4 * 1000000 / frame_total (chosen_wide (menu f)) - chosen_rate (menu f)\<bar>
      \<le> 12 / 1000 * chosen_rate (menu f) \<and>
    generator_clock (pll_sequence (c', m', k')) = Some (pll_frequency c' m' k') \<and>
    \<not> menu_changed (menu f') \<and> drop_bit 4 (int_ctrl f') AND 0xf = INT_SRC_HDMI_VBLANK OR INT_INVERT \<and>
    c_string (video_mode_desc f') =
      Some (resolution_text (mode_idx (menu f)) @ '' @ '' @ refresh_text (refresh_idx (menu f)))"
  using assms by (rule apply_video_effect)

definition demo_config :: firmware where
  "demo_config = (firmware_start \<lparr>sr = 0x2000, ticks = 0, ticks_latch = 0\<rparr> (\<lambda>_. 0) (\<lambda>_. 0)
     \<lparr>ce_numer = 0, ce_denom = 0, timing = [], arx = 0, ary = 0, pll_writes = [], pll_io = replicate 8 0\<rparr> 7)
     \<lparr>scr := demo_gfx, menu := reset_menu \<lparr>mode_idx = 0, refresh_idx = 0, aspect_idx = 0, applied_mode_idx = -1,
        applied_refresh_idx = -1, applied_aspect_idx = -1\<rparr>\<rparr>"

theorem apply_video_correct_witness:
  "\<exists>f' t. apply_video demo_config = Some f' \<and> valid_timing 1920 1080 (map uint (t :: u16 list)) \<and>
    \<not> menu_changed (menu f') \<and> c_string (video_mode_desc f') = Some ''1920x1080 @ 60hz''"
proof -
  define m where "m = \<lparr>mode_idx = 7, refresh_idx = 12, aspect_idx = 0, applied_mode_idx = -1, applied_refresh_idx = -1,
    applied_aspect_idx = -1\<rparr>"
  have m: "menu demo_config = m"
    by (simp add: m_def demo_config_def reset_menu_def)
  have ok: "menu_ok m" "res_width (chosen_mode m) = 1920" "res_height (chosen_mode m) = 1080"
    "resolution_text (mode_idx m) @ '' @ '' @ refresh_text (refresh_idx m) = ''1920x1080 @ 60hz''"
    by (simp_all add: m_def menu_ok_def chosen_mode_def resolution_text_def refresh_text_def
        hdmi_resolutions_def hdmi_refresh_rates_def dec_def digits_lsb.simps char_of_def bit_0)
  have dev: "length (video_mode_desc demo_config) = 32" "8 \<le> idle_polls (pll_io (crtc demo_config))"
    "pages_ok (scr demo_config)"
    by (simp_all add: demo_config_def firmware_start_def idle_polls_def pages_ok_def demo_gfx_def)
  from apply_video_correct [of demo_config, unfolded m, OF ok(1) dev] obtain f' t where
    "apply_video demo_config = Some f'" "valid_timing (uint (1920 :: u16)) (uint (1080 :: u16)) (map uint (t :: u16 list))"
    "\<not> menu_changed (menu f')" "c_string (video_mode_desc f') = Some ''1920x1080 @ 60hz''"
    unfolding ok(2-4) by blast
  then show ?thesis
    by auto
qed

end
