(* ===== verification/Main_Loop.thy ===== *)
theory Main_Loop
  imports Config_Menu
begin

text \<open>
  The main loop of main.c over any number of frames: its invariant, the machine of the three modes,
  the two pages, and that the program never gets stuck.
\<close>

subsection \<open>A turn of the main loop\<close>

text \<open>The invariant of the main loop.\<close>

definition fw_ok :: "firmware \<Rightarrow> bool" where
  "fw_ok f \<longleftrightarrow> scr_ok (scr f) \<and> status_ok (status f) \<and> desc_ok (video_mode_desc f) \<and>
     (test_position f = 0 \<or> test_position f = 1) \<and> menu_ok (menu f) \<and> rand_state f \<noteq> 0 \<and>
     length (samples (smp f)) = 16 \<and> sample_status (smp f) = NO_SAMPLE \<and>
     (\<exists>wide. timing (crtc f) = timing_240p wide)"

text \<open>The modes: the sensor's plug decides first, then the menu button; the menu closes on its own
  buttons and when a mode was sent.\<close>

fun mode_next :: "bool \<Rightarrow> u16 \<Rightarrow> bool \<Rightarrow> MainMode \<Rightarrow> MainMode" where
  "mode_next unplugged pressed sent MODE_SAMPLING =
     (if unplugged then MODE_NO_SENSOR else if has_flag pressed INPUT_MENU then MODE_MENU else MODE_SAMPLING)"
| "mode_next unplugged pressed sent MODE_MENU =
     (if sent \<or> has_flag pressed (INPUT_MENU OR INPUT_BACK) then MODE_SAMPLING else MODE_MENU)"
| "mode_next unplugged pressed sent MODE_NO_SENSOR = (if unplugged then MODE_NO_SENSOR else MODE_SAMPLING)"

lemma sampling_frame:
  assumes "fw_ok f" "sample_idx (smp f) \<noteq> - 1"
  shows "returns (do_sampling f) (\<lambda>f'. fw_ok f' \<and> back_page_only (scr f) (scr f') \<and> hps f' = hps f \<and>
    main_mode f' = main_mode f \<and>
    (sample_idx (smp f') = sample_idx (smp f) \<or> sample_idx (smp f') = sample_idx (smp f) + 1))"
proof -
  define s where "s = do_sampling_switch (smp f)"
  define x where "x = rand32 (rand_state f)"
  have ok: "scr_ok (scr f)" "status_ok (status f)" "test_position f = 0 \<or> test_position f = 1"
    "returns (c_string (video_mode_desc f)) (\<lambda>t. length t \<le> 31)" "sample_status (smp f) = NO_SAMPLE"
    using assms(1) by (simp_all add: fw_ok_def desc_ok_def)
  obtain g where g: "draw_sampling (status f) (video_mode_desc f) (test_position f) x (scr f) = Some g"
    "scr_ok g" "back_page_only (scr f) g"
    using sampling_scr_ok [OF ok(1-4)] by (auto elim!: returnsE)
  have idx: "sample_idx s = sample_idx (smp f) \<and> sample_status s \<noteq> NEW_SAMPLE \<or>
      sample_idx s = sample_idx (smp f) + 1"
    unfolding s_def by (rule switch_sample_idx [OF ok(5)])
  have "sample_idx (smp f) + 1 \<noteq> 0"
    using assms(2) by (metis add_eq_0_iff2)
  then have "sample_status s = NEW_SAMPLE \<Longrightarrow> history_len s \<noteq> 0"
    using idx by (auto simp: history_len_0)
  then obtain st where st: "show_outcome (s, status f) = Some (s\<lparr>sample_status := NO_SAMPLE\<rparr>, st)" "status_ok st"
    using show_outcome_ok [OF ok(2)] by (auto elim!: returnsE)
  have "x \<noteq> 0"
    using assms(1) by (simp add: x_def fw_ok_def rand32_nonzero)
  then show ?thesis
    using assms(1) g idx st(2)
    by (auto simp: do_sampling_def Let_def s_def [symmetric] x_def [symmetric] st(1) fw_ok_def) (simp_all add: s_def)
qed

lemma fw_ok_simps [simp]:
  "fw_ok (f\<lparr>main_mode := m\<rparr>) = fw_ok f" "fw_ok (f\<lparr>new_mode := b\<rparr>) = fw_ok f"
  "fw_ok (f\<lparr>vblank_count := n\<rparr>) = fw_ok f" "fw_ok (f\<lparr>crtc := (crtc f)\<lparr>pll_io := ps\<rparr>\<rparr>) = fw_ok f"
  by (simp_all add: fw_ok_def)

text \<open>What a turn of the loop does in every mode.\<close>

definition mode_effect :: "u16 \<Rightarrow> firmware \<Rightarrow> firmware \<Rightarrow> bool" where
  "mode_effect io f f' \<longleftrightarrow>
     main_mode f' = mode_next (has_flag io 1) (gamepad_pressed (scr f)) (hps f' \<noteq> hps f) (main_mode f) \<and>
     (hps f' = hps f \<longrightarrow> back_page_only (scr f) (scr f')) \<and>
     (main_mode f \<noteq> MODE_MENU \<longrightarrow> hps f' = hps f) \<and>
     (main_mode f = MODE_SAMPLING \<and> sample_idx (smp f') = sample_idx (smp f) + 1 \<or>
      sample_idx (smp f') = sample_idx (smp f))"

lemma frame_mode_effect:
  assumes "fw_ok f" "sample_idx (smp f) \<noteq> - 1" "8 \<le> idle_polls (pll_io (crtc f))"
  shows "returns (frame_mode io f) (\<lambda>f'. fw_ok f' \<and> mode_effect io f f')"
proof (cases "main_mode f")
  case MODE_SAMPLING
  obtain f1 where f1: "do_sampling (f\<lparr>new_mode := False\<rparr>) = Some f1" "fw_ok f1" "back_page_only (scr f) (scr f1)"
    "hps f1 = hps f" "main_mode f1 = MODE_SAMPLING"
    "sample_idx (smp f1) = sample_idx (smp f) \<or> sample_idx (smp f1) = sample_idx (smp f) + 1"
    using sampling_frame [of "f\<lparr>new_mode := False\<rparr>"] assms(1,2) MODE_SAMPLING by (auto elim!: returnsE)
  then have "input_pressed (scr f1) = gamepad_pressed (scr f)"
    by (simp add: back_page_only_def input_pressed_def)
  then show ?thesis
    using f1 MODE_SAMPLING by (auto simp: frame_mode_def Let_def mode_effect_def)
next
  case MODE_MENU
  have "scr_ok (scr f)" "menu_ok (menu f)" "desc_ok (video_mode_desc f)" "test_position f = 0 \<or> test_position f = 1"
    using assms(1) by (simp_all add: fw_ok_def)
  from menu_frame [OF this assms(3)] show ?thesis
    unfolding frame_mode_def MODE_MENU MainMode.case
    by (rule returns_bind) (use assms(1) MODE_MENU in \<open>auto simp: mode_effect_def fw_ok_def\<close>)
next
  case MODE_NO_SENSOR
  have "scr_ok (scr f)"
    using assms(1) by (simp add: fw_ok_def)
  from no_sensor_scr_ok [OF this] obtain g where "draw_no_sensor (scr f) = Some g" "scr_ok g"
    "back_page_only (scr f) g"
    by (auto elim!: returnsE)
  then show ?thesis
    using assms(1) MODE_NO_SENSOR by (auto simp: frame_mode_def Let_def mode_effect_def fw_ok_def)
qed

lemma pageflip_scr_ok:
  assumes "scr_ok g"
  obtains g' where "gfx_pageflip g = Some g'" "scr_ok g'" "tiles g' = tiles g" "page_front g' = 1 - page_front g"
    "vram g' = (if page_front g = 0 then 0 else 8192)" "gamepad_prev g' = gamepad_prev g"
proof -
  have ok: "pages_ok g" "screen_ctx (cur g)" "screen_ctx (contexts g ! 0)"
    using assms by (simp_all add: scr_ok_def)
  then obtain g' where g': "gfx_pageflip g = Some g'"
    by (simp add: gfx_pageflip_eq)
  moreover have "gamepad_prev g' = gamepad_prev g"
    using g' by (auto simp: gfx_pageflip_eq [OF ok(1)])
  ultimately show ?thesis
    using that [of g'] gfx_pageflip_wf [OF ok(1) g'] gfx_pageflip_regs [OF ok(1) _ g'] ok(2,3) assms
    by (simp add: scr_ok_def page_regs_def)
qed

lemma input_poll_scr [simp]:
  "scr_ok (input_poll p g) = scr_ok g" "vram (input_poll p g) = vram g" "tiles (input_poll p g) = tiles g"
  "page_front (input_poll p g) = page_front g"
  "gamepad_pressed (input_poll p g) = (p XOR gamepad_prev g) AND p"
  by (simp_all add: input_poll_def Let_def scr_ok_def gfx_wf_def pages_ok_def page_regs_def page_ok_def cur_def)

definition frame_ok :: "frame_input \<Rightarrow> bool" where
  "frame_ok e \<longleftrightarrow> 2 \<in> snd ` set (events e) \<and> 8 \<le> idle_polls (busy e)"

definition frame_effect :: "frame_input \<Rightarrow> firmware \<Rightarrow> firmware \<Rightarrow> bool" where
  "frame_effect e f f' \<longleftrightarrow>
     main_mode f' = mode_next (has_flag (user_io e) 1)
       ((gamepad_port e XOR gamepad_prev (scr f)) AND gamepad_port e) (hps f' \<noteq> hps f) (main_mode f) \<and>
     (hps f' = hps f \<longrightarrow> page_front (scr f') = 1 - page_front (scr f) \<and>
        (\<forall>a. shown (scr f') (crtc f') a \<longrightarrow>
           vram (scr f) \<le> a \<and> a < vram (scr f) + 8192 \<and>
           \<not> (vram (scr f') \<le> a \<and> a < vram (scr f') + 8192) \<and> tiles (scr f') a = tiles (scr f) a)) \<and>
     (main_mode f \<noteq> MODE_MENU \<longrightarrow> hps f' = hps f) \<and>
     (main_mode f = MODE_SAMPLING \<and> sample_idx (smp f') = sample_idx (smp f) + 1 \<or>
      sample_idx (smp f') = sample_idx (smp f))"

lemma shown_drawn_before:
  assumes "fw_ok f" "fw_ok f'" "page_front (scr f') = 1 - page_front (scr f)" "shown (scr f') (crtc f') a"
  shows "vram (scr f) \<le> a \<and> a < vram (scr f) + 8192 \<and> \<not> (vram (scr f') \<le> a \<and> a < vram (scr f') + 8192)"
proof -
  obtain wide where ok: "pages_ok (scr f')" "page_regs (scr f')" "timing (crtc f') = timing_240p wide"
    using assms(2) by (auto simp: fw_ok_def scr_ok_def)
  have "page_regs (scr f)" "page_front (scr f) = 0 \<or> page_front (scr f) = 1"
    using assms(1) by (auto simp: fw_ok_def scr_ok_def pages_ok_def)
  then show ?thesis
    using page_regs_shown [OF ok assms(4)] shown_not_drawn [OF ok assms(4)] assms(3)
    by (auto simp: page_regs_def)
qed

lemma main_frame_returns:
  assumes "fw_ok f" "sample_idx (smp f) \<noteq> - 1" "frame_ok e"
  shows "returns (main_frame e f) (\<lambda>f'. fw_ok f' \<and> frame_effect e f f')"
proof -
  have ev: "\<exists>x \<in> set (events e). snd x = 2"
    using assms(3) by (force simp: frame_ok_def)
  obtain late vc s where w: "wait_vblank (events e) (vblank_count f) (smp f) = Some (late, vc, s)"
    "samples s = samples (smp f)" "sample_idx s = sample_idx (smp f)" "sample_status s = sample_status (smp f)"
    using wait_vblank_returns [OF ev, of "vblank_count f" "smp f"] by (auto elim!: returnsE)
  have "scr_ok (scr f)"
    using assms(1) by (simp add: fw_ok_def)
  then obtain g where g: "gfx_pageflip (scr f) = Some g" "scr_ok g" "tiles g = tiles (scr f)"
    "page_front g = 1 - page_front (scr f)" "vram g = (if page_front (scr f) = 0 then 0 else 8192)"
    "gamepad_prev g = gamepad_prev (scr f)"
    by (rule pageflip_scr_ok)
  define f1 where "f1 = f\<lparr>smp := s, vblank_count := vc, scr := input_poll (gamepad_port e) g,
                crtc := (crtc f)\<lparr>pll_io := busy e\<rparr>\<rparr>"
  have "fw_ok f1" "sample_idx (smp f1) \<noteq> - 1" "8 \<le> idle_polls (pll_io (crtc f1))"
    using assms w(2-4) g(2) by (simp_all add: fw_ok_def f1_def frame_ok_def)
  then obtain f2 where f2: "frame_mode (user_io e) f1 = Some f2" "fw_ok f2" "mode_effect (user_io e) f1 f2"
    using frame_mode_effect [of f1 "user_io e"] by (auto elim!: returnsE)
  then have "scr_ok (scr f2)" "test_position f2 = 0 \<or> test_position f2 = 1"
    by (simp_all add: fw_ok_def)
  then obtain g3 where g3: "draw_version (test_position f2) (core_version f2) (scr f2) = Some g3" "scr_ok g3"
    "back_page_only (scr f2) g3"
    using version_scr_ok [of "scr f2" "test_position f2" "core_version f2"] by (auto elim!: returnsE)
  define f' where "f' = f2\<lparr>scr := g3, smp := fold event late (smp f2)\<rparr>"
  have ok: "fw_ok f'"
    using f2(2) g3(2) by (simp add: fw_ok_def f'_def)
  moreover have "page_front (scr f') = 1 - page_front (scr f) \<and>
      (\<forall>a. \<not> (vram (scr f') \<le> a \<and> a < vram (scr f') + 8192) \<longrightarrow> tiles (scr f') a = tiles (scr f) a)"
    if "hps f' = hps f"
    using that f2(3) g(3-5) g3(3) by (simp add: mode_effect_def f1_def f'_def back_page_only_def)
  then have "frame_effect e f f'"
    using shown_drawn_before [OF assms(1) ok] f2(3) g(6) w(3)
    by (simp add: frame_effect_def mode_effect_def f1_def) (simp add: f'_def)
  ultimately show ?thesis
    by (simp add: main_frame_def w(1) g(1) f1_def [symmetric] f2(1) g3(1) f'_def)
qed

subsection \<open>The program\<close>

lemma main_loop_returns:
  assumes "fw_ok f" "list_all frame_ok es" "unat (sample_idx (smp f)) + length es < 2 ^ 32"
  shows "returns (main_loop es f) fw_ok"
  using assms
proof (induction es arbitrary: f)
  case (Cons e es)
  then have "unat (sample_idx (smp f)) < 2 ^ 32 - 1"
    by simp
  then have idx: "sample_idx (smp f) \<noteq> - 1" "unat (sample_idx (smp f) + 1) = Suc (unat (sample_idx (smp f)))"
    by (auto simp: unat_word_ariths unsigned_minus_1_eq_mask mask_eq_exp_minus_1)
  have "returns (main_frame e f) (\<lambda>f'. fw_ok f' \<and> frame_effect e f f')"
    using Cons.prems idx(1) by (intro main_frame_returns) simp_all
  then show ?case
    unfolding main_loop.simps
    by (rule returns_bind) (use Cons idx(2) in \<open>auto simp: frame_effect_def\<close>)
qed simp

lemma set_palette_frame:
  "samples (set_palette s) = samples s" "sample_idx (set_palette s) = sample_idx s"
  "sample_status (set_palette s) = sample_status s" "state (set_palette s) = state s"
proof -
  have "samples (fold (\<lambda>(a, v). write_palette a v) ps s) = samples s \<and>
      sample_idx (fold (\<lambda>(a, v). write_palette a v) ps s) = sample_idx s \<and>
      sample_status (fold (\<lambda>(a, v). write_palette a v) ps s) = sample_status s \<and>
      state (fold (\<lambda>(a, v). write_palette a v) ps s) = state s" for ps
    by (induction ps arbitrary: s) (auto simp: write_palette_def split: prod.splits)
  then show "samples (set_palette s) = samples s" "sample_idx (set_palette s) = sample_idx s"
    "sample_status (set_palette s) = sample_status s" "state (set_palette s) = state s"
    unfolding set_palette_def by blast+
qed

lemma main_init_returns:
  assumes "8 \<le> idle_polls polls"
  shows "returns (main_init polls (firmware_start clk pal mem vid ver)) (\<lambda>f. fw_ok f \<and> sample_idx (smp f) = 0 \<and>
    main_mode f = MODE_SAMPLING \<and> hps f = [] \<and> state (smp f) = ST_CLEAR)"
proof -
  define g where "g = scr (firmware_start clk pal mem vid ver)"
  have g: "length (contexts g) = 8" "ctx g = 0" "page_front g = 0"
    by (simp_all add: g_def firmware_start_def)
  have root: "screen_ctx (resized False (contexts g ! 0))" "cur g = contexts g ! 0"
    by (simp_all add: g_def firmware_start_def screen_ctx_def resized_def cur_def)
  have "to_float 60 = 60"
    using single.small_int [of 60] by simp
  then obtain g' r' where g': "gfx_set_240p (to_float 60) False (g, vid\<lparr>pll_io := polls\<rparr>) = Some (g', r')"
    "pages_ok g'" "gfx_wf g'" "context_idx g' = 1" "contexts g' ! 0 = resized False (contexts g ! 0)"
    "cur g' = resized False (contexts g ! 0)" "page_regs g'" "timing r' = timing_240p False"
    using set_240p_effect [of 60 "vid\<lparr>pll_io := polls\<rparr>" g False] assms g root(2) by auto
  have "desc_ok (strcpy_buf (replicate 32 NUL) ''MiSTer Default'')"
    by (simp add: desc_ok_def strcpy_buf_def c_string_def NUL_def)
  moreover have "scr_ok g'"
    using g' root(1) by (simp add: scr_ok_def)
  moreover have "menu_ok (menu (firmware_start clk pal mem vid ver))"
    by (simp add: menu_ok_def firmware_start_def hdmi_resolutions_def hdmi_refresh_rates_def)
  moreover have "main_init polls (firmware_start clk pal mem vid ver) =
    (let f = firmware_start clk pal mem vid ver in
     Some (f\<lparr>main_mode := MODE_SAMPLING, video_mode_desc := strcpy_buf (replicate 32 NUL) ''MiSTer Default'',
       smp := enable_interrupts (set_palette (smp f)), user_port := 0xffff,
       int_ctrl := INT2_CTRL INT_SRC_VBLANK OR INT4_CTRL (INT_SRC_VBLANK OR INT_INVERT) OR INT6_CTRL INT_SRC_USERIO,
       status := status_init, scr := g', crtc := r', new_mode := True\<rparr>))"
    using g'(1) by (simp add: main_init_def Let_def g_def firmware_start_def)
  ultimately show ?thesis
    using g'(8) by (auto simp: Let_def fw_ok_def status_ok_init set_palette_frame enable_interrupts_def)
      (simp_all add: firmware_start_def)
qed

lemma main_program_returns:
  assumes "8 \<le> idle_polls polls" "list_all frame_ok es" "length es < 2 ^ 32"
  shows "returns (main_program polls es (firmware_start clk pal mem vid ver)) fw_ok"
  unfolding main_program_def
  by (rule returns_bind [OF main_init_returns [OF assms(1)]], rule main_loop_returns) (use assms in auto)

subsection \<open>Properties\<close>

text \<open>The program after its start, and a frame with idle devices.\<close>

definition demo_start :: firmware where
  "demo_start = firmware_start \<lparr>sr = 0x2700, ticks = 0, ticks_latch = 0\<rparr> (\<lambda>_. 0) (\<lambda>_. 0)
     \<lparr>ce_numer = 0, ce_denom = 0, timing = [], arx = 0, ary = 0, pll_writes = [], pll_io = []\<rparr> 7"

definition demo_frame :: "u16 \<Rightarrow> frame_input" where
  "demo_frame io = \<lparr>events = [(166667, 2)], gamepad_port = 0, user_io = io, busy = replicate 8 0\<rparr>"

lemma demo_frame_ok: "frame_ok (demo_frame io)"
  by (simp add: demo_frame_def frame_ok_def idle_polls_def)

lemma demo_init:
  obtains f where "main_init (replicate 8 0) demo_start = Some f" "fw_ok f" "sample_idx (smp f) \<noteq> - 1"
    "main_mode f = MODE_SAMPLING" "hps f = []" "sample_idx (smp f) = 0" "state (smp f) = ST_CLEAR"
proof -
  have "returns (main_init (replicate 8 0) demo_start) (\<lambda>f. fw_ok f \<and> sample_idx (smp f) = 0 \<and>
      main_mode f = MODE_SAMPLING \<and> hps f = [] \<and> state (smp f) = ST_CLEAR)"
    unfolding demo_start_def by (rule main_init_returns) (simp add: idle_polls_def)
  then show ?thesis
    by (rule returnsE) (use that in auto)
qed

text \<open>C11. Well-formed variables stay well formed, and a turn of the main loop always ends: whatever the
  gamepad, the user port and the interrupts do, as long as a vertical blank comes and the clock generator
  goes idle for its eight writes, one turn returns and keeps the pages and drawing contexts inside tile
  memory, the texts terminated inside their arrays, the menu's indices inside their tables, the test
  position one of the two, the sample history at its length, the random state nonzero and the page on
  screen apart from the page that is drawn.\<close>

theorem main_frame_type:
  assumes "fw_ok f" "frame_ok e" "sample_idx (smp f) \<noteq> - 1"
  shows "\<exists>f'. main_frame e f = Some f' \<and> fw_ok f'"
  using main_frame_returns [OF assms(1,3,2)] by (auto simp: returns_def)

theorem main_frame_type_witness:
  "\<exists>f f'. main_init (replicate 8 0) demo_start = Some f \<and> main_frame (demo_frame 0) f = Some f' \<and> fw_ok f'"
proof -
  obtain f where f: "main_init (replicate 8 0) demo_start = Some f" "fw_ok f" "sample_idx (smp f) \<noteq> - 1"
    by (rule demo_init)
  then show ?thesis
    using main_frame_type [OF f(2) demo_frame_ok f(3)] by blast
qed

text \<open>C8. The main loop implements the machine of three modes: an unplugged sensor stops the sampling and
  a plugged one starts it again, the menu button opens the menu while sampling, and the menu closes when
  its button or the back button goes down or when a video mode was sent; only the menu sends anything to
  the HPS, and only sampling adds to the history, at most one sample a frame.\<close>

theorem main_frame_modes:
  assumes "fw_ok f" "frame_ok e" "sample_idx (smp f) \<noteq> - 1" "main_frame e f = Some f'"
  shows "main_mode f' = mode_next (has_flag (user_io e) 1)
      ((gamepad_port e XOR gamepad_prev (scr f)) AND gamepad_port e) (hps f' \<noteq> hps f) (main_mode f) \<and>
    (hps f' = hps f \<or> main_mode f = MODE_MENU) \<and>
    (sample_idx (smp f') = sample_idx (smp f) \<or>
      main_mode f = MODE_SAMPLING \<and> sample_idx (smp f') = sample_idx (smp f) + 1)"
  using main_frame_returns [OF assms(1,3,2)] assms(4) unfolding frame_effect_def by auto

theorem main_frame_modes_witness:
  "\<exists>f f'. main_init (replicate 8 0) demo_start = Some f \<and> main_frame (demo_frame 1) f = Some f' \<and>
    main_mode f = MODE_SAMPLING \<and> main_mode f' = MODE_NO_SENSOR \<and> hps f' = []"
proof -
  obtain f where f: "main_init (replicate 8 0) demo_start = Some f" "fw_ok f" "sample_idx (smp f) \<noteq> - 1"
    "main_mode f = MODE_SAMPLING" "hps f = []"
    by (rule demo_init)
  then obtain f' where "main_frame (demo_frame 1) f = Some f'"
    using main_frame_returns [OF f(2,3) demo_frame_ok] by (auto simp: returns_def)
  then show ?thesis
    using main_frame_modes [OF f(2) demo_frame_ok f(3)] f by (auto simp: demo_frame_def has_flag_def)
qed

text \<open>C10. The screen never shows a page while it is drawn: in a frame that sends no video mode the pages are
  swapped once; every tile the hardware then fetches, from the offset and timing registers, lies on the
  page drawn before this frame and not on the page drawn in it, and it is what the earlier frames left
  there.\<close>

theorem main_frame_pages:
  assumes "fw_ok f" "frame_ok e" "sample_idx (smp f) \<noteq> - 1" "main_frame e f = Some f'" "hps f' = hps f"
  shows "page_front (scr f') = 1 - page_front (scr f) \<and>
    (\<forall>a. shown (scr f') (crtc f') a \<longrightarrow>
       vram (scr f) \<le> a \<and> a < vram (scr f) + 8192 \<and>
       \<not> (vram (scr f') \<le> a \<and> a < vram (scr f') + 8192) \<and> tiles (scr f') a = tiles (scr f) a)"
  using main_frame_returns [OF assms(1,3,2)] assms(4,5) unfolding frame_effect_def by auto

theorem main_frame_pages_witness:
  "\<exists>f f' a. main_init (replicate 8 0) demo_start = Some f \<and> main_frame (demo_frame 0) f = Some f' \<and>
    page_front (scr f') = 1 - page_front (scr f) \<and> shown (scr f') (crtc f') a \<and>
    vram (scr f) \<le> a \<and> a < vram (scr f) + 8192 \<and> tiles (scr f') a = tiles (scr f) a"
proof -
  obtain f where f: "main_init (replicate 8 0) demo_start = Some f" "fw_ok f" "sample_idx (smp f) \<noteq> - 1"
    "main_mode f = MODE_SAMPLING" "hps f = []"
    by (rule demo_init)
  then obtain f' where f': "main_frame (demo_frame 0) f = Some f'" "hps f' = hps f" "fw_ok f'"
    using main_frame_returns [OF f(2,3) demo_frame_ok] by (auto simp: returns_def frame_effect_def)
  have "\<not> in_vblank (crtc f') 6"
    using f'(3) by (auto simp: fw_ok_def in_vblank_def timing_240p_def Let_def split: if_splits)
  then have "shown (scr f') (crtc f') (tile_address (tile_ctrl (scr f')) 0 6)"
    by (auto simp: shown_def)
  then show ?thesis
    using main_frame_pages [OF f(2) demo_frame_ok f(3) f'(1,2)] f(1) f'(1) by blast
qed

text \<open>C1. The program never gets stuck: from the state the loader leaves, with any contents of the
  devices, it runs through any sequence of fewer than \<open>2 ^ 32\<close> frames in which the vertical blank comes
  and the clock generator goes idle, and its variables are well formed at the end.\<close>

theorem main_program_runs:
  assumes "8 \<le> idle_polls polls" "list_all frame_ok es" "length es < 2 ^ 32"
  shows "\<exists>f. main_program polls es (firmware_start clk pal mem vid ver) = Some f \<and> fw_ok f"
  using main_program_returns [OF assms] by (simp add: returns_def)

theorem main_program_runs_witness:
  "\<exists>f. main_program (replicate 8 0) (replicate 1000 (demo_frame 0)) demo_start = Some f \<and> fw_ok f"
  unfolding demo_start_def
  by (rule main_program_runs) (simp_all add: idle_polls_def list_all_iff demo_frame_ok)

end
