(* ===== verification/Measuring.thy ===== *)
theory Measuring
  imports Main_Loop
begin

text \<open>
  The main loop in the sampling mode: what a frame does to the sampling variables and the status lines,
  and a bound on the time until a sample ends, by a budget of ticks that every frame uses up.
\<close>

subsection \<open>A frame of sampling\<close>

definition event_time :: "(u32 \<times> nat) list \<Rightarrow> nat" where
  "event_time es = (\<Sum>x \<leftarrow> es. unat (fst x))"

lemma event_time_simps [simp]:
  "event_time [] = 0" "event_time (x # es) = unat (fst x) + event_time es"
  "event_time (es @ es') = event_time es + event_time es'"
  by (simp_all add: event_time_def)

lemma wait_vblank_split:
  "wait_vblank es vc s = Some (late, vc', s') \<Longrightarrow> \<exists>w. es = w @ late \<and> s' = fold event w s"
proof (induction es vc s rule: wait_vblank.induct)
  case (2 e es vc s)
  show ?case
  proof (cases "vc = vblank_int_count s")
    case True
    then obtain w where "es = w @ late" "s' = fold event w (event e s)"
      using 2 by auto
    then show ?thesis
      by (intro exI [of _ "e # w"]) simp
  qed (use 2 in auto)
qed (auto split: if_splits)

lemma event_elapsed:
  "state (event x s) = state s" "elapsed (event x s) = elapsed s + fst x"
  by (cases x; simp add: event_def elapsed_def algebra_simps)+

lemma fold_event_elapsed:
  "state (fold event w s) = state s"
  "unat (elapsed s) + event_time w < 2 ^ 32 \<Longrightarrow> unat (elapsed (fold event w s)) = unat (elapsed s) + event_time w"
proof (induction w arbitrary: s)
  case (Cons x w)
  {
    case 1
    show ?case
      using Cons.IH(1) by (simp add: event_elapsed)
  next
    case 2
    then have "unat (elapsed (event x s)) = unat (elapsed s) + unat (fst x)"
      by (simp add: event_elapsed unat_word_ariths)
    then show ?case
      using Cons.IH(2) [of "event x s"] 2 by simp
  }
qed simp_all

lemma frame_mode_sampling:
  assumes "frame_mode io f = Some f'" "main_mode f = MODE_SAMPLING"
  shows "show_outcome (do_sampling_switch (smp f), status f) = Some (smp f', status f')"
  using assms by (auto simp: frame_mode_def bind_eq_Some_conv do_sampling_def Let_def)

lemma main_frame_sampling:
  assumes "main_frame e f = Some f'" "main_mode f = MODE_SAMPLING"
  obtains w late s where "events e = w @ late" "s = do_sampling_switch (fold event w (smp f))"
    "show_outcome (s, status f) = Some (s\<lparr>sample_status := NO_SAMPLE\<rparr>, status f')"
    "smp f' = fold event late (s\<lparr>sample_status := NO_SAMPLE\<rparr>)"
proof -
  obtain late vc s0 g f1 where w: "wait_vblank (events e) (vblank_count f) (smp f) = Some (late, vc, s0)"
    "frame_mode (user_io e) (f\<lparr>smp := s0, vblank_count := vc, scr := input_poll (gamepad_port e) g,
       crtc := (crtc f)\<lparr>pll_io := busy e\<rparr>\<rparr>) = Some f1"
    "smp f' = fold event late (smp f1)" "status f' = status f1"
    using assms(1) by (auto simp: main_frame_def bind_eq_Some_conv)
  then obtain w where sp: "events e = w @ late" "s0 = fold event w (smp f)"
    using wait_vblank_split by blast
  define s where "s = do_sampling_switch s0"
  have out: "show_outcome (s, status f) = Some (smp f1, status f1)"
    using frame_mode_sampling [OF w(2)] assms(2) by (simp add: s_def)
  then have "smp f1 = s\<lparr>sample_status := NO_SAMPLE\<rparr>"
    by (auto simp: show_outcome_def bind_eq_Some_conv)
  then show ?thesis
    using that [OF sp(1), of s] out w(3,4) by (simp add: s_def sp(2))
qed

subsection \<open>Outcomes\<close>

text \<open>A frame that ends a sample: a new sample is in the history and the status lines are computed from
  it, or the first line says that there was none.\<close>

definition outcome :: "firmware \<Rightarrow> firmware \<Rightarrow> bool" where
  "outcome f f' \<longleftrightarrow> state (smp f) = ST_WAIT_SAMPLE \<and> state (smp f') = ST_CLEAR \<and>
     (sample_idx (smp f') = sample_idx (smp f) + 1 \<and> update_sample_status (smp f') (status f) = Some (status f') \<or>
      sample_idx (smp f') = sample_idx (smp f) \<and> c_string (lines (status f') ! 0) = Some ''CUR: NO SAMPLE'')"

lemma fold_event_latest [simp]: "latest_sample (fold event es s) = latest_sample s"
proof (induction es arbitrary: s)
  case (Cons x es)
  then show ?case
    by (cases x) (simp add: event_def interrupt_def handler_defs Let_def)
qed simp

lemma update_sample_status_cong:
  "samples s = samples s' \<Longrightarrow> sample_idx s = sample_idx s' \<Longrightarrow> latest_sample s = latest_sample s' \<Longrightarrow>
   update_sample_status s st = update_sample_status s' st"
  by (simp add: update_sample_status_def history_len_def split: prod.split)

lemma switch_outcome:
  assumes "state s = ST_WAIT_SAMPLE" "state (do_sampling_switch s) = ST_CLEAR"
  shows "sample_status (do_sampling_switch s) = NEW_SAMPLE \<and> sample_idx (do_sampling_switch s) = sample_idx s + 1 \<or>
    sample_status (do_sampling_switch s) = MISSING_SAMPLE \<and> sample_idx (do_sampling_switch s) = sample_idx s"
  using assms by (auto simp: do_sampling_switch_def sampler_defs Let_def split: if_splits)

lemma missing_line:
  assumes "show_outcome (s, st) = Some (s', st')" "sample_status s = MISSING_SAMPLE" "status_ok st"
  shows "c_string (lines st' ! 0) = Some ''CUR: NO SAMPLE''"
proof -
  have len: "length (lines st) = 4" "length (lines st ! 0) = 17"
    using assms(3) by (auto simp: status_ok_def STATUS_H_def line_ok_def STATUS_W_def list_all_iff)
  have "format_out 0 ''CUR: NO SAMPLE'' [] = Some (''CUR: NO SAMPLE'', [])"
    by (simp add: format_out_lit format_out_Nil)
  then obtain b where "snprintf_buf (lines st ! 0) 16 ''CUR: NO SAMPLE'' [] = Some (of_nat (length ''CUR: NO SAMPLE''), b)"
    "c_string b = Some (take (unat (16 :: u32) - 1) ''CUR: NO SAMPLE'')"
    by (rule snprintf_buf_text [where n = 16 and b = "lines st ! 0"])
      (use len in \<open>simp_all add: PRINTF_MAX_POSSIBLE_BUFFER_SIZE_def NUL_def\<close>)
  then show ?thesis
    using assms(1,2) len(1) by (auto simp: show_outcome_def STATUS_W_def)
qed

lemma sample_ends:
  assumes "main_frame e f = Some f'" "main_mode f = MODE_SAMPLING" "status_ok (status f)"
    and "state (smp f) = ST_WAIT_SAMPLE" "state (smp f') = ST_CLEAR"
  shows "outcome f f'"
proof -
  obtain w late s where s: "s = do_sampling_switch (fold event w (smp f))"
    "show_outcome (s, status f) = Some (s\<lparr>sample_status := NO_SAMPLE\<rparr>, status f')"
    "smp f' = fold event late (s\<lparr>sample_status := NO_SAMPLE\<rparr>)"
    using assms(1,2) by (rule main_frame_sampling)
  have "state s = ST_CLEAR"
    using s(3) assms(5) by (simp add: fold_event_elapsed)
  then consider "sample_status s = NEW_SAMPLE" "sample_idx s = sample_idx (smp f) + 1" |
      "sample_status s = MISSING_SAMPLE" "sample_idx s = sample_idx (smp f)"
    using switch_outcome [of "fold event w (smp f)"] assms(4) by (auto simp: s(1) fold_event_elapsed)
  then show ?thesis
  proof cases
    case 1
    have "update_sample_status (smp f') (status f) = update_sample_status s (status f)"
      by (rule update_sample_status_cong) (simp_all add: s(3))
    then show ?thesis
      using 1 assms(4,5) s(2,3) by (auto simp: outcome_def show_outcome_def bind_eq_Some_conv)
  next
    case 2
    then show ?thesis
      using missing_line [OF s(2) _ assms(3)] assms(4,5) s(3) by (simp add: outcome_def)
  qed
qed

subsection \<open>Progress\<close>

text \<open>Ticks until a sample ends at the latest, for frames of at most p ticks.\<close>

definition budget :: "nat \<Rightarrow> 'a sampler_scheme \<Rightarrow> nat" where
  "budget p s =
     (case state s of
        ST_CLEAR \<Rightarrow> 7000001 + 5 * p
      | ST_WAIT_CLEAR \<Rightarrow> 2000000 + p - unat (elapsed s) + (5000001 + 3 * p)
      | ST_START_SAMPLE \<Rightarrow> 5000001 + 2 * p
      | ST_WAIT_SAMPLE \<Rightarrow> 5000001 + p - unat (elapsed s)
      | ST_END_SAMPLE \<Rightarrow> 7000001 + 6 * p)"

definition phase_ok :: "nat \<Rightarrow> 'a sampler_scheme \<Rightarrow> bool" where
  "phase_ok p s \<longleftrightarrow> (state s = ST_WAIT_CLEAR \<longrightarrow> unat (elapsed s) < 2000000 + p) \<and>
     (state s = ST_WAIT_SAMPLE \<longrightarrow> unat (elapsed s) < 5000001 + p)"

lemma elapsed_status [simp]: "elapsed (s\<lparr>sample_status := x\<rparr>) = elapsed s"
  by (simp add: elapsed_def)

lemma sampling_progress:
  fixes w late :: "(u32 \<times> nat) list" and s :: sampler
  defines "s' \<equiv> fold event late ((do_sampling_switch (fold event w s))\<lparr>sample_status := NO_SAMPLE\<rparr>)"
  assumes "phase_ok p s" "event_time w + event_time late \<le> p" "p \<le> 2000000000"
  shows "state s = ST_WAIT_SAMPLE \<and> state s' = ST_CLEAR \<or>
    phase_ok p s' \<and> budget p s' + (event_time w + event_time late) \<le> budget p s"
proof -
  define m where "m = fold event w s"
  define d where "d = do_sampling_switch m"
  have m: "state m = state s" "unat (elapsed s) + event_time w < 2 ^ 32 \<Longrightarrow>
      unat (elapsed m) = unat (elapsed s) + event_time w"
    unfolding m_def by (rule fold_event_elapsed)+
  have s': "state s' = state d" "unat (elapsed d) + event_time late < 2 ^ 32 \<Longrightarrow>
      unat (elapsed s') = unat (elapsed d) + event_time late"
    using fold_event_elapsed [where s = "d\<lparr>sample_status := NO_SAMPLE\<rparr>" and w = late] by (simp_all add: s'_def d_def m_def)
  show ?thesis
  proof (cases "state s")
    case ST_CLEAR
    then show ?thesis
      using switch_clear [of m] m(1) s' assms(3,4) by (simp add: d_def [symmetric] phase_ok_def budget_def)
  next
    case ST_WAIT_CLEAR
    then show ?thesis
      using switch_wait_clear [of m] m s' assms(2-4) by (auto simp: d_def [symmetric] phase_ok_def budget_def)
  next
    case ST_START_SAMPLE
    then show ?thesis
      using switch_start_sample [of m] m(1) s' assms(3,4) by (simp add: d_def [symmetric] phase_ok_def budget_def)
  next
    case ST_WAIT_SAMPLE
    then show ?thesis
      using switch_wait_sample [of m] m s' assms(2-4) by (auto simp: d_def [symmetric] phase_ok_def budget_def)
  next
    case ST_END_SAMPLE
    then have "state d = ST_CLEAR"
      using m(1) by (simp add: d_def do_sampling_switch_def sampler_defs Let_def)
    then show ?thesis
      using ST_END_SAMPLE s'(1) assms(3) by (simp add: phase_ok_def budget_def)
  qed
qed

text \<open>A frame with the sensor plugged in and no button held, of at most p ticks.\<close>

definition quiet :: "nat \<Rightarrow> frame_input \<Rightarrow> bool" where
  "quiet p e \<longleftrightarrow> frame_ok e \<and> event_time (events e) \<le> p \<and> gamepad_port e = 0 \<and> \<not> has_flag (user_io e) 1"

lemma quiet_frame:
  assumes "fw_ok f" "sample_idx (smp f) \<noteq> - 1" "quiet p e" "main_mode f = MODE_SAMPLING" "phase_ok p (smp f)"
    and "p \<le> 2000000000"
  obtains f' where "main_frame e f = Some f'" "fw_ok f'" "main_mode f' = MODE_SAMPLING"
    "unat (sample_idx (smp f')) \<le> Suc (unat (sample_idx (smp f)))"
    "outcome f f' \<or> phase_ok p (smp f') \<and> budget p (smp f') + event_time (events e) \<le> budget p (smp f)"
proof -
  obtain f' where f': "main_frame e f = Some f'" "fw_ok f'" "frame_effect e f f'"
    using main_frame_returns [OF assms(1,2), of e] assms(3) by (auto simp: quiet_def elim!: returnsE)
  have mode: "main_mode f' = MODE_SAMPLING"
    using f'(3) assms(3,4) by (simp add: frame_effect_def quiet_def has_flag_def)
  have idx: "unat (sample_idx (smp f')) \<le> Suc (unat (sample_idx (smp f)))"
    using f'(3) by (auto simp: frame_effect_def unat_word_ariths)
  obtain w late s where w: "events e = w @ late" "s = do_sampling_switch (fold event w (smp f))"
    "smp f' = fold event late (s\<lparr>sample_status := NO_SAMPLE\<rparr>)"
    using f'(1) assms(4) by (rule main_frame_sampling)
  have "status_ok (status f)"
    using assms(1) by (simp add: fw_ok_def)
  moreover have "state (smp f) = ST_WAIT_SAMPLE \<and> state (smp f') = ST_CLEAR \<or>
      phase_ok p (smp f') \<and> budget p (smp f') + event_time (events e) \<le> budget p (smp f)"
    using sampling_progress [OF assms(5) _ assms(6), of w late] assms(3) w by (simp add: quiet_def)
  ultimately show ?thesis
    using that [OF f'(1,2) mode idx] sample_ends [OF f'(1) assms(4)] by blast
qed

lemma sample_ends_within:
  assumes "fw_ok f" "main_mode f = MODE_SAMPLING" "phase_ok p (smp f)" "p \<le> 2000000000" "list_all (quiet p) es"
    and "unat (sample_idx (smp f)) + length es < 2 ^ 32" "budget p (smp f) \<le> (\<Sum>e \<leftarrow> es. event_time (events e))"
  shows "\<exists>es1 e es2 f1 f2. es = es1 @ e # es2 \<and> main_loop es1 f = Some f1 \<and> main_frame e f1 = Some f2 \<and> outcome f1 f2"
  using assms
proof (induction es arbitrary: f)
  case Nil
  then show ?case
    by (simp add: budget_def phase_ok_def split: State.splits)
next
  case (Cons e es)
  have idx: "sample_idx (smp f) \<noteq> - 1"
    using Cons.prems(6) by (auto simp: unsigned_minus_1_eq_mask mask_eq_exp_minus_1)
  have q: "quiet p e"
    using Cons.prems(5) by simp
  obtain f' where f': "main_frame e f = Some f'" "fw_ok f'" "main_mode f' = MODE_SAMPLING"
    "unat (sample_idx (smp f')) \<le> Suc (unat (sample_idx (smp f)))"
    "outcome f f' \<or> phase_ok p (smp f') \<and> budget p (smp f') + event_time (events e) \<le> budget p (smp f)"
    by (rule quiet_frame [OF Cons.prems(1) idx q Cons.prems(2-4)])
  from f'(5) show ?case
  proof
    assume "outcome f f'"
    then show ?thesis
      using f'(1) by (intro exI [of _ "[]"] exI [of _ e] exI [of _ es] exI [of _ f] exI [of _ f']) simp
  next
    assume "phase_ok p (smp f') \<and> budget p (smp f') + event_time (events e) \<le> budget p (smp f)"
    then obtain es1 e1 es2 f1 f2 where "es = es1 @ e1 # es2" "main_loop es1 f' = Some f1" "main_frame e1 f1 = Some f2"
      "outcome f1 f2"
      using Cons.IH [of f'] f'(2-4) Cons.prems(4-7) by auto
    then show ?thesis
      using f'(1) by (intro exI [of _ "e # es1"] exI [of _ e1] exI [of _ es2] exI [of _ f1] exI [of _ f2]) simp
  qed
qed

subsection \<open>Properties\<close>

text \<open>C3. The program keeps measuring: from the clear state of the sampling mode, in which the program
  starts and to which every outcome leads back, with the sensor plugged in and no button held, every run
  of frames of at most p ticks that lasts 7000001 + 5 p ticks has a frame in which a sample ends, with a
  new sample in the history and the status lines computed from it, or with the line that says that there
  was none. For frames at 60 Hz that is less than 0.8 seconds.\<close>

theorem program_measures:
  assumes "fw_ok f" "main_mode f = MODE_SAMPLING" "state (smp f) = ST_CLEAR" "p \<le> 2000000000" "list_all (quiet p) es"
    and "unat (sample_idx (smp f)) + length es < 2 ^ 32" "7000001 + 5 * p \<le> (\<Sum>e \<leftarrow> es. event_time (events e))"
  shows "\<exists>es1 e es2 f1 f2. es = es1 @ e # es2 \<and> main_loop es1 f = Some f1 \<and> main_frame e f1 = Some f2 \<and> outcome f1 f2"
  by (rule sample_ends_within [OF assms(1,2) _ assms(4,5,6)]) (use assms(3,7) in \<open>simp_all add: phase_ok_def budget_def\<close>)

theorem program_measures_witness:
  "\<exists>f es1 e es2 f1 f2. main_init (replicate 8 0) demo_start = Some f \<and>
    replicate 50 (demo_frame 0) = es1 @ e # es2 \<and> main_loop es1 f = Some f1 \<and> main_frame e f1 = Some f2 \<and> outcome f1 f2"
proof -
  have q: "list_all (quiet 166667) (replicate 50 (demo_frame 0))"
    using demo_frame_ok [of 0] by (simp add: quiet_def list_all_iff demo_frame_def event_time_def has_flag_def)
  obtain f where f: "main_init (replicate 8 0) demo_start = Some f" "fw_ok f" "sample_idx (smp f) = 0"
    "main_mode f = MODE_SAMPLING" "state (smp f) = ST_CLEAR"
    by (rule demo_init)
  have "\<exists>es1 e es2 f1 f2. replicate 50 (demo_frame 0) = es1 @ e # es2 \<and> main_loop es1 f = Some f1 \<and>
      main_frame e f1 = Some f2 \<and> outcome f1 f2"
    by (rule program_measures [OF f(2,4,5) _ q])
      (simp_all add: f(3) demo_frame_def event_time_def sum_list_replicate)
  then show ?thesis
    using f(1) by blast
qed

end
