(* ===== verification/Debug.thy ===== *)
theory Debug
  imports Firmware
begin

text \<open>
  The debug overlay (debug.c, debug.h), for a build with ML_DEBUG set: markers store the ticks at four
  points of a frame, debug_end_frame turns them into intervals, and debug_draw shows these in
  microseconds. With ML_DEBUG at 0, as the Makefile sets it, the markers and the calls are empty.
\<close>

record DebugStats =
  vblank_start :: u32
  vblank_end :: u32
  sample_start :: u32
  frontend_end :: u32
  stats_frame_total :: u32

datatype FrameMarker = Vblank_Start | Vblank_End | Sample_Start | Frontend_End

text \<open>The static variables of debug.c next to the clock.\<close>

record debug = clock_hw +
  debug_stats :: DebugStats
  shown_vblank_start :: u32
  shown_vblank_end :: u32
  shown_frame_total :: u32
  shown_frontend_end :: u32
  shown_sample_start :: u32

definition DEBUG_FRAME_MARKER :: "FrameMarker \<Rightarrow> debug \<Rightarrow> debug" where
  "DEBUG_FRAME_MARKER name s =
     (let (t, s1) = clock_get_ticks s;
          d = debug_stats s1
      in s1\<lparr>debug_stats :=
           (case name of
              Vblank_Start \<Rightarrow> d\<lparr>vblank_start := t\<rparr>
            | Vblank_End \<Rightarrow> d\<lparr>vblank_end := t\<rparr>
            | Sample_Start \<Rightarrow> d\<lparr>sample_start := t\<rparr>
            | Frontend_End \<Rightarrow> d\<lparr>frontend_end := t\<rparr>)\<rparr>)"

definition debug_end_frame :: "debug \<Rightarrow> debug" where
  "debug_end_frame s =
     (let d = debug_stats s;
          s = s\<lparr>shown_frame_total := vblank_start d - shown_vblank_start s\<rparr>;
          s = s\<lparr>shown_vblank_start := vblank_start d\<rparr>;
          s = s\<lparr>shown_frontend_end := frontend_end d - shown_vblank_start s\<rparr>;
          s = s\<lparr>shown_vblank_end := vblank_end d - shown_vblank_start s\<rparr>
      in if sample_start d > vblank_start d
         then s\<lparr>shown_sample_start := sample_start d - vblank_start d\<rparr> else s)"

definition debug_draw :: "debug \<Rightarrow> 'a gfx_scheme \<Rightarrow> 'a gfx_scheme option" where
  "debug_draw d s =
     do {
       s \<leftarrow> gfx_begin_window (ALIGN_TOP OR ALIGN_RIGHT) 2 1 24 2 0 s;
       s \<leftarrow> gfx_textf_aligned ALIGN_LEFT ''%5u %5u %5u %5u''
              [VInt (CLOCK_TICKS_TO_US (shown_sample_start d)), VInt (CLOCK_TICKS_TO_US (shown_vblank_end d)),
               VInt (CLOCK_TICKS_TO_US (shown_frontend_end d)), VInt (CLOCK_TICKS_TO_US (shown_frame_total d))]
              (gfx_pen TEXT_DARK s);
       Some (gfx_end_window s)
     }"

text \<open>A sequence of markers, each with the time since the one before, and then the end of the frame. In
  main.c the markers stand in the vertical blank handlers, in do_sampling and at the end of the loop.\<close>

definition debug_turn :: "(u32 \<times> FrameMarker) list \<Rightarrow> debug \<Rightarrow> debug" where
  "debug_turn es s =
     debug_end_frame (fold (\<lambda>(dt, name) s. DEBUG_FRAME_MARKER name (s\<lparr>ticks := ticks s + dt\<rparr>)) es s)"

subsection \<open>Drawing\<close>

text \<open>A number in a field of five characters.\<close>

definition field5 :: "nat \<Rightarrow> char list" where
  "field5 n = replicate (5 - length (dec n)) CHR '' '' @ dec n"

lemma conversion_out_5u:
  "conversion_out n (CHR ''5'' # CHR ''u'' # fmt) (VInt v # as) = Some (fmt, as, field5 (unat v), [])"
proof -
  have "int_text v False BASE_DECIMAL 0 5 0 = Some (field5 (unat v))"
    by (subst int_text_dec) (simp_all add: has_flag_def PRINTF_INTEGER_BUFFER_SIZE_def field5_def)
  then show ?thesis
    by (simp add: conversion_out_def convert_out_def parse_defs integer_request_def drop_hash_def
        has_flag_def base_defs flag_defs Let_def)
qed

lemma length_field5_us: "length (field5 (unat (CLOCK_TICKS_TO_US t))) \<le> 9"
proof -
  have "unat (CLOCK_TICKS_TO_US t) = unat t div 10"
    by (simp add: CLOCK_TICKS_TO_US_def CLOCK_REF_MHZ_def unat_div_distrib)
  moreover have "unat t < 2 ^ 32"
    using unsigned_less [of t] by simp
  ultimately have "unat (CLOCK_TICKS_TO_US t) < 10 ^ Suc 8"
    by simp
  then have "length (dec (unat (CLOCK_TICKS_TO_US t))) \<le> 9"
    using length_dec [of "unat (CLOCK_TICKS_TO_US t)" 8] by simp
  then show ?thesis
    by (simp add: field5_def)
qed

lemma drawn_debug:
  assumes "drawn s (c # r) ms s'" "screen_ctx c" "context_idx s + int (length r) < 7"
  shows "returns (debug_draw d s') (drawn s (c # r) ms)"
proof -
  define w0 where "w0 = window_ctx (ALIGN_TOP OR ALIGN_RIGHT) 2 1 24 2 c"
  define w where "w = w0\<lparr>pen := TEXT_DARK\<rparr>"
  have w: "room w (Suc 0)"
    using assms(2) by (auto simp: w_def w0_def room_def screen_ctx_def layout_simps)
  obtain s1 where s1: "gfx_begin_window (ALIGN_TOP OR ALIGN_RIGHT) 2 1 24 2 0 s' = Some s1"
    "drawn s (w0 # c # r) ms s1"
    unfolding w0_def using drawn_begin_window [OF assms(1,3)] by (rule returnsE)
  note pen = drawn_pen [OF s1(2), of TEXT_DARK, folded w_def]
  define us where "us t = field5 (unat (CLOCK_TICKS_TO_US t))" for t
  define t where "t = us (shown_sample_start d) @ '' '' @ us (shown_vblank_end d) @ '' '' @
    us (shown_frontend_end d) @ '' '' @ us (shown_frame_total d)"
  have out: "format_out 0 ''%5u %5u %5u %5u''
     [VInt (CLOCK_TICKS_TO_US (shown_sample_start d)), VInt (CLOCK_TICKS_TO_US (shown_vblank_end d)),
      VInt (CLOCK_TICKS_TO_US (shown_frontend_end d)), VInt (CLOCK_TICKS_TO_US (shown_frame_total d))] = Some (t, [])"
    by (simp add: format_out_conv [OF conversion_out_5u] format_out_lit format_out_Nil t_def us_def)
  have us: "length (us x) \<le> 9" "NUL \<notin> set (us x)" for x
    using length_field5_us NUL_not_in_dec by (auto simp: us_def field5_def NUL_def)
  have t: "length t < 40" "NUL \<notin> set t"
    using us(1) [of "shown_sample_start d"] us(1) [of "shown_vblank_end d"] us(1) [of "shown_frontend_end d"]
      us(1) [of "shown_frame_total d"] us(2) by (auto simp: t_def NUL_def)
  obtain s2 where s2: "gfx_textf_aligned ALIGN_LEFT ''%5u %5u %5u %5u''
      [VInt (CLOCK_TICKS_TO_US (shown_sample_start d)), VInt (CLOCK_TICKS_TO_US (shown_vblank_end d)),
       VInt (CLOCK_TICKS_TO_US (shown_frontend_end d)), VInt (CLOCK_TICKS_TO_US (shown_frame_total d))]
      (gfx_pen TEXT_DARK s1) = Some s2" "drawn s (text_ctx ALIGN_LEFT t w # c # r) ms s2"
    using drawn_textf_room [OF pen w out t] by (rule returnsE)
  show ?thesis
    using drawn_pop [OF s2(2)] by (simp add: debug_draw_def s1(1) s2(1) gfx_end_window_def)
qed

subsection \<open>Properties\<close>

lemma after_wrap:
  assumes "0 < k" "k < 2 ^ 32"
  shows "(of_nat n :: u32) < of_nat (n + k) \<longleftrightarrow> n mod 2 ^ 32 + k < 2 ^ 32"
proof (cases "n mod 2 ^ 32 + k < 2 ^ 32")
  case True
  then have "(n + k) mod 2 ^ 32 = n mod 2 ^ 32 + k"
    by (metis mod_add_left_eq mod_less)
  then show ?thesis
    using True assms(1) by (simp add: word_less_nat_alt unat_of_nat del: of_nat_add)
next
  case False
  have "n mod 2 ^ 32 < 2 ^ 32"
    by simp
  then have "(n mod 2 ^ 32 + k) mod 2 ^ 32 = n mod 2 ^ 32 + k - 2 ^ 32"
    using False assms(2) by (simp add: le_mod_geq)
  then have "(n + k) mod 2 ^ 32 = n mod 2 ^ 32 + k - 2 ^ 32"
    by (simp add: mod_add_left_eq)
  then show ?thesis
    using False assms(2) by (simp add: word_less_nat_alt unat_of_nat del: of_nat_add)
qed

text \<open>C35. The intervals of a frame are exact although the counter wraps: with the vertical blank a ticks
  after the current time and the other markers b, c and d ticks apart, debug_end_frame stores the time
  since the previous blank and the times from this blank to its end and to the end of the frame's work,
  as long as each is below the counter's range. The time to the start of a sample is stored too, unless
  the counter wraps in between, when the old value stays.\<close>

theorem debug_intervals:
  assumes "ticks s = of_nat now" "shown_vblank_start s = of_nat prev" "prev \<le> now"
    and "now + a - prev < 2 ^ 32" "b + c + d < 2 ^ 32" "0 < b"
  defines "s' \<equiv> debug_turn [(of_nat a, Vblank_Start), (of_nat b, Vblank_End), (of_nat c, Sample_Start),
      (of_nat d, Frontend_End)] s"
  shows "unat (shown_frame_total s') = now + a - prev \<and> unat (shown_vblank_end s') = b \<and>
    unat (shown_frontend_end s') = b + c + d \<and> shown_vblank_start s' = of_nat (now + a) \<and>
    (if (now + a) mod 2 ^ 32 + b + c < 2 ^ 32 then unat (shown_sample_start s') = b + c
     else shown_sample_start s' = shown_sample_start s)"
proof -
  have marks: "shown_frame_total s' = of_nat (now + a) - of_nat prev" "shown_vblank_start s' = of_nat (now + a)"
    "shown_vblank_end s' = of_nat b" "shown_frontend_end s' = of_nat (b + c + d)"
    "shown_sample_start s' = (if (of_nat (now + a + (b + c)) :: u32) > of_nat (now + a) then of_nat (b + c)
       else shown_sample_start s)"
    using assms(1,2)
    by (simp_all add: s'_def debug_turn_def DEBUG_FRAME_MARKER_def debug_end_frame_def clock_get_ticks_eq Let_def
        algebra_simps)
  have total: "of_nat (now + a) - of_nat prev = (of_nat (now + a - prev) :: u32)"
    using assms(3) by (simp add: of_nat_diff)
  have "(of_nat (now + a + (b + c)) :: u32) > of_nat (now + a) \<longleftrightarrow> (now + a) mod 2 ^ 32 + b + c < 2 ^ 32"
    using after_wrap [of "b + c" "now + a"] assms(5,6) by (simp add: add.assoc)
  then show ?thesis
    using assms(4,5) unfolding marks total by (simp add: unat_of_nat del: of_nat_add)
qed

definition demo_debug :: debug where
  "demo_debug = \<lparr>sr = 0x2000, ticks = 0xfffffff0, ticks_latch = 0,
     debug_stats = \<lparr>vblank_start = 0, vblank_end = 0, sample_start = 0, frontend_end = 0, stats_frame_total = 0\<rparr>,
     shown_vblank_start = 0xfffffff0, shown_vblank_end = 0, shown_frame_total = 0xffffffff, shown_frontend_end = 0,
     shown_sample_start = 0xffffffff\<rparr>"

theorem debug_intervals_witness:
  "let s' = debug_turn [(32, Vblank_Start), (100, Vblank_End), (50, Sample_Start), (1000, Frontend_End)] demo_debug
   in unat (shown_frame_total s') = 32 \<and> unat (shown_vblank_end s') = 100 \<and> unat (shown_frontend_end s') = 1150 \<and>
     unat (shown_sample_start s') = 150"
  using debug_intervals [of demo_debug 4294967280 4294967280 32 100 50 1000] by (simp add: demo_debug_def Let_def)



end
