(* ===== verification/Spec2Isabelle.thy ===== *)
theory Spec2Isabelle
  imports Clock Input Interrupts Printf_Float Util Sampling_Interleaving Measuring Debug
begin

text \<open>
  Verification of the firmware of the MiSTer Laggy core (src/firmware/src), the program that
  measures the display latency of a MiSTer: it flashes a bar, waits for the light sensor to see it,
  and shows the time between the start of the frame and the sensor's edge. The firmware runs alone
  on a 68000 next to a 10 MHz tick counter, a tile map with a blitter, a gamepad port and the video
  timing hardware of the core.

  \<^bold>\<open>Parts and theories\<close>

  \<^item> Laggy_Prelude: the machine integer types (int, long and pointers are 32 bits wide), flag words,
    generic facts on words, and the predicate for computations that return.
  \<^item> Clock: clock.h and clock.c, with the two macros of interrupts.h it uses. The status register,
    the counter and its latch are a record that the later states extend.
  \<^item> Input: input.c and input.h, the gamepad poll.
  \<^item> Interrupts: init.c, interrupts_default.c and interrupts.h, the vector table, the weak handlers
    and the start-up code that fills the data and bss segments.
  \<^item> Util: util.h, over a flat byte memory.
  \<^item> Printf, Printf_Spec, Printf_Decimal: printf/printf.c as the Makefile configures it. Printf is
    the code; Printf_Spec gives the text a format denotes and the interface of an output sink, and
    shows that the code delivers that text; Printf_Decimal has decimal notation and the properties.
    Printf_Float has the fixed point conversion, which the Makefile compiles out, for a build with it.
  \<^item> Sampling: the variables, handlers, state machine and sample ring of main.c, one definition per
    function, each handler and the switch of do_sampling as one step.
  \<^item> Sampling_Interleaving: the same code cut at the accesses it shares, as a step relation in which
    the counter ticks and interrupts nest at any point.
  \<^item> Gfx, Gfx_Draw, Menu, Display: gfx.c and gfx.h. Gfx has contexts, pages, the blitter, primitives,
    windows and text; Gfx_Draw says what they draw; Menu has the menu items; Display has gfx_set_240p,
    which programs the core's own screen and lays out the two pages, and the tiles that the tile map
    (rtl/tilemap.sv) fetches outside the vertical blank (rtl/crtc.sv) for given registers.
  \<^item> Soft_Float: float and double as rationals rounded after every operation, and the bounds on the
    rounding error that the video code needs.
  \<^item> Hdmi, Hdmi_Modes, Hdmi_Pll, Hdmi_Set: hdmi.c and hdmi.h. Hdmi is the code; Hdmi_Modes has the
    timings it computes, Hdmi_Pll the search for clock generator parameters, Hdmi_Set the transactions
    to the HPS, the registers of the local generator, and the clock that the written registers produce
    when they are read back (the command decoder of sys/sys_top.v and the register fields of sys/pll_cfg).
  \<^item> Status, Screens: the status lines, the other texts, the palette, the random numbers and the screens
    of main.c.
  \<^item> Firmware, Config_Menu, Main_Loop, Measuring: main.c as a whole. Firmware has the program's
    variables and devices as one record, the menu, do_sampling, wait_vblank, a turn of the main loop and
    main; Config_Menu has the menu and the change of the video mode; Main_Loop the invariant of the loop
    over any number of frames; Measuring the time until a sample ends.
  \<^item> Debug: debug.c and debug.h for a build with ML_DEBUG set. The other theories model the build of
    the Makefile, where ML_DEBUG is 0 and the markers are empty.

  \<^bold>\<open>How they interact\<close>

  The handlers of main.c read the clock (Clock) and store captures that do_sampling compares. The
  capture channel of Sampling_Interleaving is an interface that both handlers provide; the facts
  about a capture are proved once from it. Drawing reads the gamepad through the record it extends
  and formats text with the printf library. A turn of the main loop waits for the vertical blank
  interrupt, flips the pages, polls the gamepad and runs the sampling, the menu or the missing sensor
  screen; the menu programs the local screen (Display) and sends the mode to the HPS (Hdmi_Set). What
  the devices do in a turn is an argument of it: the interrupts with the time before each, the two
  ports, and the values of the clock generator's busy register. Interrupts after the wait are served at
  the end of the turn; Sampling_Interleaving has them at every point of the sampling code.

  \<^bold>\<open>What is shown\<close>

  \<^item> A recorded sample is the latency between the first captures of its window under every
    interleaving, given that no handler re-enters itself and that sequence numbers do not alias; a
    run without the first condition shows that it is needed.
  \<^item> The ring holds the last sixteen samples, and the sequence number moves on only while the bar is
    white. Lemmas relate the interleaved steps to the functions of main.c and show that sampling always
    decides.
  \<^item> printf stores the denoted text, cut to the buffer, and never leaves its buffers. The fixed point
    conversion rounds to the nearest decimal, with an exception that an example shows, and is undefined
    exactly from precision 50 on.
  \<^item> Drawing fills exactly the tiles it should; windows, framed or not, restore their context; menus
    cycle; the debug overlay stays on the page that is drawn.
  \<^item> Every computed video mode is a valid timing; the search for generator parameters ends, and the
    transactions are complete. The clocks of both screens, read back from the registers, are right to
    about one percent from about 3 MHz on, which covers every mode of the menu and every 240p rate from
    8 Hz; below, a counter may not fit its register and then sets the bypass bit.
  \<^item> The status lines show the statistics of the last sixteen samples.
  \<^item> A turn of the main loop always ends, keeps the variables well formed, implements the machine of
    three modes and never draws on the page that the registers put on screen, and so the program never gets stuck; with the sensor
    plugged in it ends a sample, and shows it, within a bounded time.
  \<^item> Start-up, input, clock conversion and the memory helpers do what their callers rely on.

  \<^bold>\<open>Loops and bounds\<close>

  Counted loops are recursive functions with a measure. The loops that may not end are partial
  functions into option (the blitter, which never stops for a repeat count of 65535, and the string
  loops, which need a terminator); the properties show that they return. None always stands for
  undefined or unmodelled behaviour, so a property that gives Some excludes it. The waits for a device
  (the busy register, the vertical blank) consume a list of what the device does and are None when it
  runs out; the properties ask for eight idle polls, one per register write, and one vertical blank in
  a frame. The loop of main runs over a list of frames, shorter than the range of the sample index,
  whose wrap would divide by zero. The fuel of the
  uninterrupted steps (eight for do_sampling, six for a handler) is the length of the longest path.

  \<^bold>\<open>Not modelled\<close>

  The exponential conversion of printf (compiled out by the Makefile; its logarithm and power series work
  on the bits of a double), the long long integers of printf (compiled out), the stack set-up and the
  symbols of the linker script, and the hardware (rtl, sys) except for the parts named above.
\<close>

end
